theory Spec2Isabelle
  imports Complex_Main
begin

section \<open>Python primitives used by the program\<close>

text \<open>
  \<^verbatim>\<open>int(math.sqrt(x))\<close> for a natural number \<open>x\<close>: the integer part of the square
  root. The floating-point square root is exact enough for this on the inputs the
  program is run with (below \<open>2^52\<close>); the model is the exact integer square root.
\<close>

primrec raiz_entera :: "nat \<Rightarrow> nat" where
  "raiz_entera 0 = 0"
| "raiz_entera (Suc n) =
     (let r = raiz_entera n in if Suc r * Suc r \<le> Suc n then Suc r else r)"

text \<open>
  \<^verbatim>\<open>range(a, b, paso)\<close> with a positive step, over natural numbers and over integers.
  Python raises \<open>ValueError\<close> on a zero step; every call in the program passes a
  step of at least 2, and the model returns the empty list there.
\<close>

function range_nat :: "nat \<Rightarrow> nat \<Rightarrow> nat \<Rightarrow> nat list" where
  "range_nat a b paso = (if a < b \<and> 0 < paso then a # range_nat (a + paso) b paso else [])"
  by pat_completeness auto
termination
  by (relation "measure (\<lambda>(a, b, paso). b - a)") auto

function range_int :: "int \<Rightarrow> int \<Rightarrow> int \<Rightarrow> int list" where
  "range_int a b paso = (if a < b \<and> 0 < paso then a # range_int (a + paso) b paso else [])"
  by pat_completeness auto
termination
  by (relation "measure (\<lambda>(a, b, paso). nat (b - a))") auto

declare range_nat.simps [simp del] range_int.simps [simp del]

section \<open>The sieves\<close>

text \<open>
  \<^verbatim>\<open>for j in range(i*i, tope, i): es_primo[j] = False\<close>
\<close>

definition tachar_multiplos :: "nat \<Rightarrow> nat \<Rightarrow> bool list \<Rightarrow> bool list" where
  "tachar_multiplos tope i es_primo =
     fold (\<lambda>j es. es[j := False]) (range_nat (i * i) tope i) es_primo"

text \<open>
  \<^verbatim>\<open>if es_primo[i]: for j in range(i*i, tope, i): es_primo[j] = False\<close>,
  the body of the outer loop of both sieves.
\<close>

definition paso_criba :: "nat \<Rightarrow> nat \<Rightarrow> bool list \<Rightarrow> bool list" where
  "paso_criba tope i es_primo =
     (if es_primo ! i then tachar_multiplos tope i es_primo else es_primo)"

text \<open>
  The flat sieve of \<^verbatim>\<open>test_verificacion_rapida.py\<close>. After the guard
  \<^verbatim>\<open>limite < 2\<close> every quantity is a natural number; the array work is done on
  \<open>nat\<close> and the primes are returned as Python integers.
\<close>

definition criba_simple_arreglo :: "nat \<Rightarrow> bool list" where
  "criba_simple_arreglo limite =
     fold (paso_criba (limite + 1)) [2..<raiz_entera limite + 1]
       ((replicate (limite + 1) True)[0 := False, 1 := False])"

definition criba_eratostenes_simple :: "int \<Rightarrow> int list" where
  "criba_eratostenes_simple limite =
     (if limite < 2 then []
      else let lim = nat limite; es_primo = criba_simple_arreglo lim
           in map int [i \<leftarrow> [0..<lim + 1]. es_primo ! i])"

text \<open>
  Phase 1 of the segmented sieve: the small primes, below
  \<^verbatim>\<open>sqrt_limite = int(math.sqrt(limite)) + 1\<close>.
\<close>

definition primos_pequenos :: "nat \<Rightarrow> nat list" where
  "primos_pequenos sqrt_limite =
     (let es_primo_pequeno =
            fold (paso_criba sqrt_limite) [2..<raiz_entera sqrt_limite + 1]
              ((replicate sqrt_limite True)[0 := False, 1 := False])
      in [i \<leftarrow> [0..<sqrt_limite]. es_primo_pequeno ! i])"

text \<open>
  Phase 2, one prime on one segment: the first multiple of \<open>p\<close> at or after
  \<open>inicio\<close>, with the two adjustments of the source, and the strike loop
  \<^verbatim>\<open>for j in range(primer_multiplo, fin, p): segmento[j - inicio] = False\<close>.
\<close>

definition primer_multiplo :: "nat \<Rightarrow> nat \<Rightarrow> nat" where
  "primer_multiplo inicio p =
     (let m0 = ((inicio + p - 1) div p) * p;
          m1 = (if m0 < inicio then m0 + p else m0)
      in if m1 = p then m1 + p else m1)"

definition tachar_en_segmento :: "nat \<Rightarrow> nat \<Rightarrow> nat \<Rightarrow> bool list \<Rightarrow> bool list" where
  "tachar_en_segmento inicio fin p segmento =
     fold (\<lambda>j seg. seg[j - inicio := False]) (range_nat (primer_multiplo inicio p) fin p) segmento"

definition cribar_segmento :: "nat list \<Rightarrow> nat \<Rightarrow> nat \<Rightarrow> bool list" where
  "cribar_segmento pequenos inicio fin =
     fold (tachar_en_segmento inicio fin) pequenos (replicate (fin - inicio) True)"

text \<open>
  The body of the loop over the segments: sieve the segment starting at \<open>inicio\<close>
  and extend the list of primes with its survivors.
\<close>

definition paso_segmento :: "nat list \<Rightarrow> nat \<Rightarrow> nat \<Rightarrow> nat \<Rightarrow> nat list \<Rightarrow> nat list" where
  "paso_segmento pequenos limite tamano_segmento inicio primos =
     (let fin = min (inicio + tamano_segmento) (limite + 1);
          segmento = cribar_segmento pequenos inicio fin
      in primos @ [inicio + i. i \<leftarrow> [0..<length segmento], segmento ! i])"

definition criba_fases :: "nat \<Rightarrow> nat list" where
  "criba_fases limite =
     (let sqrt_limite = raiz_entera limite + 1;
          pequenos = primos_pequenos sqrt_limite
      in if limite \<le> sqrt_limite then [p \<leftarrow> pequenos. p \<le> limite]
         else let tamano_segmento = min sqrt_limite (10 ^ 6)
              in fold (paso_segmento pequenos limite tamano_segmento)
                   (range_nat sqrt_limite (limite + 1) tamano_segmento) pequenos)"

definition criba_eratostenes_segmentada :: "int \<Rightarrow> int list" where
  "criba_eratostenes_segmentada limite =
     (if limite < 2 then [] else map int (criba_fases (nat limite)))"

text \<open>The reference notion of a prime number, by divisors.\<close>

definition primo :: "nat \<Rightarrow> bool" where
  "primo n \<longleftrightarrow> 2 \<le> n \<and> (\<forall>d. d dvd n \<longrightarrow> d = 1 \<or> d = n)"

text \<open>
  Data for evaluating on concrete numbers: the primes up to 2000; for each even number
  from 6 to 2000, in order, a prime \<open>p\<close> (the least one) with \<open>n - p\<close> prime; and the
  check that walks the second list from a given even number upwards.
\<close>

definition primos_2000 :: "nat list" where
  "primos_2000 =
    [2, 3, 5, 7, 11, 13, 17, 19, 23, 29, 31, 37, 41, 43, 47, 53, 59, 61, 67, 71, 73, 79,
     83, 89, 97, 101, 103, 107, 109, 113, 127, 131, 137, 139, 149, 151, 157, 163, 167, 173,
     179, 181, 191, 193, 197, 199, 211, 223, 227, 229, 233, 239, 241, 251, 257, 263, 269,
     271, 277, 281, 283, 293, 307, 311, 313, 317, 331, 337, 347, 349, 353, 359, 367, 373,
     379, 383, 389, 397, 401, 409, 419, 421, 431, 433, 439, 443, 449, 457, 461, 463, 467,
     479, 487, 491, 499, 503, 509, 521, 523, 541, 547, 557, 563, 569, 571, 577, 587, 593,
     599, 601, 607, 613, 617, 619, 631, 641, 643, 647, 653, 659, 661, 673, 677, 683, 691,
     701, 709, 719, 727, 733, 739, 743, 751, 757, 761, 769, 773, 787, 797, 809, 811, 821,
     823, 827, 829, 839, 853, 857, 859, 863, 877, 881, 883, 887, 907, 911, 919, 929, 937,
     941, 947, 953, 967, 971, 977, 983, 991, 997, 1009, 1013, 1019, 1021, 1031, 1033, 1039,
     1049, 1051, 1061, 1063, 1069, 1087, 1091, 1093, 1097, 1103, 1109, 1117, 1123, 1129,
     1151, 1153, 1163, 1171, 1181, 1187, 1193, 1201, 1213, 1217, 1223, 1229, 1231, 1237,
     1249, 1259, 1277, 1279, 1283, 1289, 1291, 1297, 1301, 1303, 1307, 1319, 1321, 1327,
     1361, 1367, 1373, 1381, 1399, 1409, 1423, 1427, 1429, 1433, 1439, 1447, 1451, 1453,
     1459, 1471, 1481, 1483, 1487, 1489, 1493, 1499, 1511, 1523, 1531, 1543, 1549, 1553,
     1559, 1567, 1571, 1579, 1583, 1597, 1601, 1607, 1609, 1613, 1619, 1621, 1627, 1637,
     1657, 1663, 1667, 1669, 1693, 1697, 1699, 1709, 1721, 1723, 1733, 1741, 1747, 1753,
     1759, 1777, 1783, 1787, 1789, 1801, 1811, 1823, 1831, 1847, 1861, 1867, 1871, 1873,
     1877, 1879, 1889, 1901, 1907, 1913, 1931, 1933, 1949, 1951, 1973, 1979, 1987, 1993,
     1997, 1999]"

definition testigos_2000 :: "int list" where
  "testigos_2000 =
    [3, 3, 3, 5, 3, 3, 5, 3, 3, 5, 3, 5, 7, 3, 3, 5, 7, 3, 5, 3, 3, 5, 3, 5, 7, 3, 5, 7, 3,
     3, 5, 7, 3, 5, 3, 3, 5, 7, 3, 5, 3, 5, 7, 3, 5, 7, 19, 3, 5, 3, 3, 5, 3, 3, 5, 3, 5,
     7, 13, 11, 13, 19, 3, 5, 3, 5, 7, 3, 3, 5, 7, 11, 11, 3, 3, 5, 7, 3, 5, 7, 3, 5, 3, 5,
     7, 3, 5, 7, 3, 3, 5, 7, 11, 11, 3, 3, 5, 3, 3, 5, 7, 11, 11, 13, 3, 5, 7, 23, 11, 13,
     3, 5, 3, 3, 5, 3, 5, 7, 3, 3, 5, 7, 11, 11, 3, 5, 7, 3, 5, 7, 3, 5, 7, 3, 3, 5, 7, 3,
     5, 3, 3, 5, 7, 11, 11, 3, 5, 7, 19, 11, 13, 31, 3, 5, 3, 3, 5, 3, 5, 7, 13, 11, 13,
     19, 3, 5, 7, 3, 5, 7, 29, 11, 3, 3, 5, 3, 5, 7, 3, 5, 7, 19, 3, 5, 7, 3, 5, 7, 3, 5,
     3, 5, 7, 3, 5, 7, 19, 3, 5, 3, 5, 7, 13, 3, 5, 7, 17, 11, 3, 3, 5, 7, 11, 11, 3, 3, 5,
     7, 3, 5, 3, 5, 7, 3, 5, 7, 19, 3, 5, 3, 3, 5, 3, 5, 7, 13, 11, 13, 3, 5, 7, 31, 3, 5,
     3, 5, 7, 13, 3, 5, 3, 5, 7, 3, 5, 7, 19, 11, 13, 3, 3, 5, 7, 11, 11, 13, 17, 17, 19,
     3, 5, 7, 3, 5, 7, 47, 11, 3, 5, 7, 3, 5, 7, 3, 3, 5, 7, 3, 5, 7, 17, 11, 3, 5, 7, 3,
     5, 7, 3, 3, 5, 7, 3, 5, 7, 3, 5, 3, 3, 5, 7, 11, 11, 13, 3, 5, 7, 23, 11, 3, 3, 5, 3,
     5, 7, 3, 5, 7, 3, 3, 5, 7, 11, 11, 13, 3, 5, 3, 5, 7, 3, 5, 7, 19, 3, 5, 7, 17, 11, 3,
     5, 7, 19, 3, 5, 7, 17, 11, 3, 5, 7, 19, 3, 5, 7, 3, 5, 7, 3, 5, 3, 5, 7, 13, 3, 5, 7,
     3, 5, 3, 5, 7, 13, 3, 5, 3, 5, 7, 13, 11, 13, 19, 3, 5, 7, 23, 11, 3, 5, 7, 19, 11,
     13, 3, 3, 5, 7, 11, 11, 3, 3, 5, 3, 3, 5, 7, 11, 11, 3, 5, 7, 19, 11, 13, 31, 3, 5, 3,
     3, 5, 3, 5, 7, 13, 11, 13, 19, 3, 5, 3, 3, 5, 3, 5, 7, 13, 11, 13, 19, 17, 19, 31, 3,
     5, 3, 5, 7, 13, 3, 5, 7, 17, 11, 3, 5, 7, 19, 3, 5, 3, 5, 7, 3, 5, 7, 3, 5, 7, 43, 11,
     13, 31, 3, 5, 3, 5, 7, 3, 5, 7, 3, 5, 7, 73, 3, 5, 7, 3, 5, 7, 23, 11, 13, 3, 5, 3, 5,
     7, 3, 3, 5, 7, 11, 11, 3, 3, 5, 7, 3, 5, 7, 17, 11, 3, 3, 5, 7, 11, 11, 3, 3, 5, 7, 3,
     5, 7, 17, 11, 13, 23, 17, 19, 3, 5, 3, 3, 5, 3, 5, 7, 3, 5, 7, 3, 5, 7, 31, 3, 5, 7,
     3, 5, 7, 3, 5, 7, 29, 11, 13, 41, 17, 19, 41, 23, 3, 3, 5, 7, 11, 11, 3, 5, 7, 19, 3,
     5, 7, 17, 11, 3, 5, 7, 3, 5, 7, 3, 5, 7, 31, 3, 5, 7, 17, 11, 13, 3, 5, 3, 5, 7, 3, 5,
     7, 3, 3, 5, 7, 3, 5, 7, 17, 11, 13, 3, 5, 7, 29, 11, 3, 5, 7, 19, 11, 13, 37, 17, 19,
     3, 3, 5, 3, 5, 7, 3, 3, 5, 7, 3, 5, 3, 3, 5, 3, 5, 7, 13, 11, 13, 3, 3, 5, 7, 3, 5, 7,
     17, 11, 13, 23, 17, 19, 29, 23, 31, 47, 29, 31, 41, 41, 3, 5, 7, 3, 5, 7, 3, 5, 7, 61,
     3, 5, 7, 17, 11, 13, 23, 17, 19, 3, 5, 7, 41, 11, 3, 5, 7, 19, 11, 13, 43, 3, 5, 3, 3,
     5, 3, 5, 7, 3, 5, 7, 19, 3, 5, 3, 3, 5, 7, 3, 5, 7, 17, 11, 13, 3, 5, 7, 29, 11, 3, 3,
     5, 3, 3, 5, 3, 5, 7, 3, 5, 7, 19, 11, 13, 3, 5, 7, 31, 11, 13, 3, 5, 7, 43, 3, 5, 7,
     17, 11, 13, 3, 5, 7, 3, 5, 3, 5, 7, 3, 5, 7, 19, 3, 5, 3, 5, 7, 13, 3, 5, 3, 5, 7, 13,
     11, 13, 19, 3, 5, 3, 5, 7, 3, 3, 5, 3, 5, 7, 3, 3, 5, 7, 3, 5, 7, 17, 11, 3, 5, 7, 19,
     11, 13, 31, 17, 19, 31, 3, 5, 7, 3, 5, 3, 3, 5, 7, 11, 11, 13, 17, 17, 19, 23, 23, 31,
     3, 5, 3, 3, 5, 7, 11, 11, 3, 5, 7, 19, 11, 13, 3, 3, 5, 7, 11, 11, 3, 5, 7, 19, 3, 5,
     7, 3, 5, 7, 3, 5, 7, 3, 5, 7, 47, 11, 13, 41, 17, 19, 3, 5, 7, 3, 5, 3, 3, 5, 7, 11,
     11, 13, 3, 5, 7, 23, 11, 3, 5, 7, 19, 11, 13, 3, 5, 7, 31, 3, 5, 7, 17, 11, 13, 23,
     17, 3, 5, 7, 67, 11, 13, 31, 3, 5, 7, 3, 5, 3, 3, 5, 3, 3, 5, 7, 11, 11, 3, 5, 7, 19,
     11, 13, 3, 5, 7, 3, 5, 7, 3, 5, 7, 43, 11, 13, 61, 17, 19, 3, 3, 5, 7, 11, 11, 13, 17,
     17, 3, 3, 5, 7, 11, 11, 13, 17, 17, 19, 23, 23, 3, 5, 7, 3, 5, 7, 37, 3, 5, 7, 3, 5, 3]"

fun comprobar_pares :: "int \<Rightarrow> int list \<Rightarrow> bool" where
  "comprobar_pares n [] = True"
| "comprobar_pares n (p # ps) =
     (2 \<le> p \<and> 2 * p \<le> n \<and> primo (nat p) \<and> primo (nat (n - p)) \<and> comprobar_pares (n + 2) ps)"

section \<open>The batch verifier\<close>

text \<open>
  The two module-level dictionaries \<^verbatim>\<open>_cache_primos\<close> and \<^verbatim>\<open>_cache_set_primos\<close>
  are only ever written together, under the same key, by \<^verbatim>\<open>obtener_primos_hasta\<close>;
  they are held as one map from the key to the pair (list, set). The function returns
  the pair and the cache it leaves behind.
\<close>

type_synonym cache = "int \<rightharpoonup> int list \<times> int set"

definition obtener_primos_hasta :: "cache \<Rightarrow> int \<Rightarrow> (int list \<times> int set) \<times> cache" where
  "obtener_primos_hasta cache n =
     (case cache n of
        Some par \<Rightarrow> (par, cache)
      | None \<Rightarrow>
          (let primos = criba_eratostenes_segmentada n; par = (primos, set primos)
           in (par, cache(n \<mapsto> par))))"

text \<open>
  The dictionary \<^verbatim>\<open>resultados\<close> of one batch. \<^verbatim>\<open>min_representaciones\<close> starts as
  \<^verbatim>\<open>float('inf')\<close>, which is \<open>None\<close> here. \<^verbatim>\<open>tiempo\<close> is the difference of two
  readings of the wall clock, taken as real numbers.
\<close>

record resultado =
  rango :: "int \<times> int"
  verificados :: int
  cumple :: int
  no_cumple :: "int list"
  min_representaciones :: "int option"
  max_representaciones :: int
  tiempo :: real

text \<open>
  \<^verbatim>\<open>if n_inicio % 2 != 0: n_inicio += 1\<close>, written out in the verifier and again in
  the driver. Python's \<open>%\<close> with a positive modulus is \<open>mod\<close> on \<open>int\<close>.
\<close>

definition asegurar_par :: "int \<Rightarrow> int" where
  "asegurar_par n_inicio = (if n_inicio mod 2 \<noteq> 0 then n_inicio + 1 else n_inicio)"

text \<open>
  The inner loop over the primes, with its \<^verbatim>\<open>break\<close>; the last argument is the
  running count \<^verbatim>\<open>representaciones\<close>. Python's \<open>//\<close> is \<open>div\<close> on \<open>int\<close>.
\<close>

fun contar_representaciones :: "int \<Rightarrow> int set \<Rightarrow> int list \<Rightarrow> int \<Rightarrow> int" where
  "contar_representaciones n set_primos [] representaciones = representaciones"
| "contar_representaciones n set_primos (p # primos) representaciones =
     (if p > n div 2 then representaciones
      else contar_representaciones n set_primos primos
             (if n - p \<in> set_primos then representaciones + 1 else representaciones))"

text \<open>The body of the loop over the even numbers of the batch.\<close>

definition verificar_numero :: "int list \<Rightarrow> int set \<Rightarrow> int \<Rightarrow> resultado \<Rightarrow> resultado" where
  "verificar_numero primos set_primos n resultados =
     (let representaciones = contar_representaciones n set_primos primos 0;
          res = resultados\<lparr>verificados := verificados resultados + 1\<rparr>
      in if representaciones > 0
         then res\<lparr>cumple := cumple res + 1,
                  min_representaciones :=
                    (case min_representaciones res of
                       None \<Rightarrow> Some representaciones
                     | Some m \<Rightarrow> Some (min m representaciones)),
                  max_representaciones := max (max_representaciones res) representaciones\<rparr>
         else res\<lparr>no_cumple := no_cumple res @ [n]\<rparr>)"

text \<open>
  The numbers a batch verifies: \<^verbatim>\<open>range(n_inicio, n_fin + 1, 2)\<close> after the start has
  been made even.
\<close>

definition numeros_verificados :: "int \<times> int \<times> bool \<Rightarrow> int list" where
  "numeros_verificados args =
     (case args of (n_inicio, n_fin, verbose) \<Rightarrow> range_int (asegurar_par n_inicio) (n_fin + 1) 2)"

text \<open>
  The value of \<^verbatim>\<open>representaciones\<close> after the inner loop, for the number \<open>n\<close> in the
  batch \<open>args\<close>, in a process whose prime cache is \<open>cache\<close>.
\<close>

definition representaciones_en_lote :: "cache \<Rightarrow> int \<times> int \<times> bool \<Rightarrow> int \<Rightarrow> int" where
  "representaciones_en_lote cache args n =
     (case args of (n_inicio, n_fin, verbose) \<Rightarrow>
        (case obtener_primos_hasta cache n_fin of ((primos, set_primos), cache') \<Rightarrow>
           contar_representaciones n set_primos primos 0))"

text \<open>
  \<^verbatim>\<open>verificar_goldbach_rango(args)\<close>. Besides the argument tuple the model takes what
  the function reads from its surroundings: the prime cache of the process it runs in,
  and the two readings \<open>(inicio_tiempo, fin)\<close> of \<^verbatim>\<open>time.time()\<close>. It returns the
  result dictionary and the cache it leaves behind.
\<close>

definition verificar_goldbach_rango ::
  "cache \<Rightarrow> int \<times> int \<times> bool \<Rightarrow> real \<times> real \<Rightarrow> resultado \<times> cache" where
  "verificar_goldbach_rango cache args reloj =
     (case args of (n_inicio0, n_fin, verbose) \<Rightarrow>
        (case obtener_primos_hasta cache n_fin of ((primos, set_primos), cache') \<Rightarrow>
           (let n_inicio = asegurar_par n_inicio0;
                resultados = \<lparr>rango = (n_inicio, n_fin), verificados = 0, cumple = 0,
                              no_cumple = [], min_representaciones = None,
                              max_representaciones = 0, tiempo = 0\<rparr>;
                resultados' = fold (verificar_numero primos set_primos)
                                (numeros_verificados args) resultados
            in (resultados'\<lparr>tiempo := snd reloj - fst reloj\<rparr>, cache'))))"

section \<open>The checkpoint\<close>

text \<open>
  What \<^verbatim>\<open>json.load\<close> can return, and the state of the checkpoint file: absent,
  present but failing in \<^verbatim>\<open>open\<close> or in \<^verbatim>\<open>json.load\<close>, or holding a JSON document.
  A JSON object is the Python dictionary it parses to, as an association list.
\<close>

datatype valor =
  Nulo | Booleano bool | Entero int | Flotante real | Cadena string
  | Lista "valor list" | Objeto "(string \<times> valor) list"

datatype archivo = Ausente | Ilegible | Documento valor

datatype excepcion = ErrorDeLectura | KeyError | TypeError | ValueError

record config =
  n_inicial :: int
  n_final :: int
  num_cores :: nat
  tamano_batch :: int
  intervalo_guardado :: real

record progreso =
  ultimo_n_verificado :: int
  total_verificados :: int
  total_cumple :: int
  contraejemplos :: "int list"
  tiempo_total :: real
  inicio_sesion :: string

text \<open>\<^verbatim>\<open>open(...)\<close> followed by \<^verbatim>\<open>json.load(f)\<close>.\<close>

definition leer_json :: "archivo \<Rightarrow> excepcion + valor" where
  "leer_json a = (case a of Documento v \<Rightarrow> Inr v | _ \<Rightarrow> Inl ErrorDeLectura)"

text \<open>\<^verbatim>\<open>progreso[clave]\<close> on whatever \<^verbatim>\<open>json.load\<close> returned.\<close>

definition indexar :: "valor \<Rightarrow> string \<Rightarrow> excepcion + valor" where
  "indexar v clave =
     (case v of
        Objeto kvs \<Rightarrow> (case map_of kvs clave of Some x \<Rightarrow> Inr x | None \<Rightarrow> Inl KeyError)
      | _ \<Rightarrow> Inl TypeError)"

text \<open>
  The format specification \<^verbatim>\<open>{...:,}\<close> of the log line: it formats numbers
  (and booleans, which are integers in Python), raises \<open>ValueError\<close> on a string
  and \<open>TypeError\<close> on \<open>None\<close>, lists and dictionaries.
\<close>

definition formato_miles :: "valor \<Rightarrow> excepcion + unit" where
  "formato_miles v =
     (case v of
        Entero _ \<Rightarrow> Inr () | Flotante _ \<Rightarrow> Inr () | Booleano _ \<Rightarrow> Inr ()
      | Cadena _ \<Rightarrow> Inl ValueError
      | _ \<Rightarrow> Inl TypeError)"

text \<open>
  The default dictionary of \<^verbatim>\<open>cargar_progreso\<close>; \<open>ahora\<close> is
  \<^verbatim>\<open>datetime.now().isoformat()\<close>.
\<close>

definition progreso_inicial :: "config \<Rightarrow> string \<Rightarrow> valor" where
  "progreso_inicial cfg ahora =
     Objeto [(''ultimo_n_verificado'', Entero (n_inicial cfg - 2)),
             (''total_verificados'', Entero 0),
             (''total_cumple'', Entero 0),
             (''contraejemplos'', Lista []),
             (''tiempo_total'', Entero 0),
             (''inicio_sesion'', Cadena ahora)]"

text \<open>
  The body of the \<^verbatim>\<open>try\<close> block of \<^verbatim>\<open>cargar_progreso\<close>: read the document,
  then build the log line from \<^verbatim>\<open>progreso['ultimo_n_verificado']\<close>, then return the
  document.
\<close>

definition intentar_cargar :: "archivo \<Rightarrow> excepcion + valor" where
  "intentar_cargar a =
     (case leer_json a of
        Inl e \<Rightarrow> Inl e
      | Inr progreso \<Rightarrow>
          (case indexar progreso ''ultimo_n_verificado'' of
             Inl e \<Rightarrow> Inl e
           | Inr ultimo \<Rightarrow>
               (case formato_miles ultimo of Inl e \<Rightarrow> Inl e | Inr _ \<Rightarrow> Inr progreso)))"

text \<open>
  \<^verbatim>\<open>cargar_progreso()\<close>: \<^verbatim>\<open>except Exception\<close> catches every exception of the
  \<^verbatim>\<open>try\<close> block and falls through to the default dictionary. The result is a sum so
  that an exception reaching the caller would be a value \<open>Inl\<close>.
\<close>

definition cargar_progreso :: "config \<Rightarrow> string \<Rightarrow> archivo \<Rightarrow> excepcion + valor" where
  "cargar_progreso cfg ahora a =
     (if a \<noteq> Ausente
      then (case intentar_cargar a of
              Inr progreso \<Rightarrow> Inr progreso
            | Inl e \<Rightarrow> Inr (progreso_inicial cfg ahora))
      else Inr (progreso_inicial cfg ahora))"

text \<open>
  The dictionary the driver keeps and \<^verbatim>\<open>guardar_progreso\<close> dumps, as JSON, and the
  way back: the record of a dictionary that has the six entries with the types the
  program gives them. The driver is modelled on such records.
\<close>

definition valor_de_progreso :: "progreso \<Rightarrow> valor" where
  "valor_de_progreso p =
     Objeto [(''ultimo_n_verificado'', Entero (ultimo_n_verificado p)),
             (''total_verificados'', Entero (total_verificados p)),
             (''total_cumple'', Entero (total_cumple p)),
             (''contraejemplos'', Lista (map Entero (contraejemplos p))),
             (''tiempo_total'', Flotante (tiempo_total p)),
             (''inicio_sesion'', Cadena (inicio_sesion p))]"

fun enteros :: "valor list \<Rightarrow> int list option" where
  "enteros [] = Some []"
| "enteros (Entero i # vs) = (case enteros vs of Some is \<Rightarrow> Some (i # is) | None \<Rightarrow> None)"
| "enteros (_ # vs) = None"

fun numero :: "valor \<Rightarrow> real option" where
  "numero (Entero i) = Some (of_int i)"
| "numero (Flotante x) = Some x"
| "numero _ = None"

definition progreso_de_valor :: "valor \<Rightarrow> progreso option" where
  "progreso_de_valor v =
     (case v of
        Objeto kvs \<Rightarrow>
          (case (map_of kvs ''ultimo_n_verificado'', map_of kvs ''total_verificados'',
                 map_of kvs ''total_cumple'', map_of kvs ''contraejemplos'',
                 map_of kvs ''tiempo_total'', map_of kvs ''inicio_sesion'') of
             (Some (Entero u), Some (Entero tv), Some (Entero tc), Some (Lista cs),
              Some t, Some (Cadena s)) \<Rightarrow>
               (case (enteros cs, numero t) of
                  (Some ce, Some tt) \<Rightarrow>
                    Some \<lparr>ultimo_n_verificado = u, total_verificados = tv, total_cumple = tc,
                          contraejemplos = ce, tiempo_total = tt, inicio_sesion = s\<rparr>
                | _ \<Rightarrow> None)
           | _ \<Rightarrow> None)
      | _ \<Rightarrow> None)"

text \<open>The Progress a fresh invocation starts from, when the checkpoint file yields one.\<close>

definition progreso_cargado :: "config \<Rightarrow> string \<Rightarrow> archivo \<Rightarrow> progreso option" where
  "progreso_cargado cfg ahora a =
     (case cargar_progreso cfg ahora a of Inr v \<Rightarrow> progreso_de_valor v | Inl e \<Rightarrow> None)"

section \<open>The driver\<close>

text \<open>
  What the driver reads from its surroundings: \<open>reloj k\<close> is the \<open>k\<close>-th reading of
  \<^verbatim>\<open>time.time()\<close> by the driver (reading 0 sets \<^verbatim>\<open>ultimo_guardado\<close> before the loop,
  reading \<open>k + 1\<close> is \<^verbatim>\<open>tiempo_actual\<close> after round \<open>k\<close>); \<open>cronometro\<close> gives the two
  readings of the worker that runs a batch; \<open>interrupcion\<close> is the round during whose
  \<^verbatim>\<open>pool.map\<close> a \<open>KeyboardInterrupt\<close> arrives, if any.
\<close>

record entorno =
  reloj :: "nat \<Rightarrow> real"
  cronometro :: "int \<times> int \<times> bool \<Rightarrow> real \<times> real"
  interrupcion :: "nat option"

datatype terminacion = Completada | YaCompletada | Interrumpida | Fallida

text \<open>
  What a run leaves behind: how it ended, the dictionary it returns (or held when it
  re-raised), the sequence of dictionaries passed to \<^verbatim>\<open>guardar_progreso\<close>, and the
  batches that went through \<^verbatim>\<open>pool.map\<close>, in order.
\<close>

record salida =
  desenlace :: terminacion
  progreso_final :: progreso
  guardados :: "progreso list"
  lotes :: "(int \<times> int \<times> bool) list"

text \<open>The variables of the \<^verbatim>\<open>while\<close> loop, with the two histories of the run so far.\<close>

record estado =
  n_actual :: int
  progreso_acum :: progreso
  ultimo_guardado :: real
  ronda :: nat
  guardados_hasta :: "progreso list"
  lotes_hasta :: "(int \<times> int \<times> bool) list"

text \<open>
  \<^verbatim>\<open>for _ in range(num_cores): ...\<close>: the batches of one round, and \<^verbatim>\<open>n_actual\<close>
  after it.
\<close>

fun preparar_batches :: "config \<Rightarrow> nat \<Rightarrow> int \<Rightarrow> (int \<times> int \<times> bool) list \<times> int" where
  "preparar_batches cfg 0 n_act = ([], n_act)"
| "preparar_batches cfg (Suc k) n_act =
     (if n_act > n_final cfg then ([], n_act)
      else let n_fin_batch = min (n_act + tamano_batch cfg - 1) (n_final cfg)
           in case preparar_batches cfg k (n_fin_batch + 2) of
                (batches, n') \<Rightarrow> ((n_act, n_fin_batch, False) # batches, n'))"

text \<open>The body of \<^verbatim>\<open>for resultado in resultados\<close>.\<close>

definition consolidar :: "resultado \<Rightarrow> progreso \<Rightarrow> progreso" where
  "consolidar resultado p =
     p\<lparr>total_verificados := total_verificados p + verificados resultado,
       total_cumple := total_cumple p + cumple resultado,
       contraejemplos := contraejemplos p @ no_cumple resultado,
       ultimo_n_verificado := snd (rango resultado),
       tiempo_total := tiempo_total p + tiempo resultado\<rparr>"

text \<open>
  \<^verbatim>\<open>pool.map(verificar_goldbach_rango, batches)\<close>: the results in the order of the
  batches. Every worker process has its own prime cache, which starts empty.
\<close>

definition pool_map :: "entorno \<Rightarrow> (int \<times> int \<times> bool) list \<Rightarrow> resultado list" where
  "pool_map ent batches =
     map (\<lambda>b. fst (verificar_goldbach_rango Map.empty b (cronometro ent b))) batches"

text \<open>
  The \<^verbatim>\<open>while\<close> loop with the code after it. The loop need not end (a negative
  \<^verbatim>\<open>tamano_batch\<close> makes \<^verbatim>\<open>n_actual\<close> stand still or go down); a run that does not
  return is \<open>None\<close>.
\<close>

partial_function (option) bucle :: "config \<Rightarrow> entorno \<Rightarrow> estado \<Rightarrow> salida option" where
  "bucle cfg ent st =
     (if n_actual st \<le> n_final cfg
      then (case preparar_batches cfg (num_cores cfg) (n_actual st) of
              (batches, n') \<Rightarrow>
                if batches = []
                then Some \<lparr>desenlace = Completada, progreso_final = progreso_acum st,
                           guardados = guardados_hasta st @ [progreso_acum st],
                           lotes = lotes_hasta st\<rparr>
                else if interrupcion ent = Some (ronda st)
                then Some \<lparr>desenlace = Interrumpida, progreso_final = progreso_acum st,
                           guardados = guardados_hasta st @ [progreso_acum st],
                           lotes = lotes_hasta st\<rparr>
                else
                  (let resultados = pool_map ent batches;
                       p = fold consolidar resultados (progreso_acum st);
                       tiempo_actual = reloj ent (Suc (ronda st));
                       toca = (tiempo_actual - ultimo_guardado st \<ge> intervalo_guardado cfg)
                   in bucle cfg ent
                        \<lparr>n_actual = n', progreso_acum = p,
                         ultimo_guardado = (if toca then tiempo_actual else ultimo_guardado st),
                         ronda = Suc (ronda st),
                         guardados_hasta = (if toca then guardados_hasta st @ [p]
                                            else guardados_hasta st),
                         lotes_hasta = lotes_hasta st @ batches\<rparr>))
      else Some \<lparr>desenlace = Completada, progreso_final = progreso_acum st,
                 guardados = guardados_hasta st @ [progreso_acum st],
                 lotes = lotes_hasta st\<rparr>)"

text \<open>
  \<^verbatim>\<open>verificacion_masiva_goldbach()\<close>, from the dictionary that \<^verbatim>\<open>cargar_progreso()\<close>
  returned. \<^verbatim>\<open>Pool(processes=0)\<close> raises \<open>ValueError\<close> inside the \<^verbatim>\<open>try\<close>, which
  saves and re-raises.
\<close>

definition verificacion_masiva_goldbach :: "config \<Rightarrow> entorno \<Rightarrow> progreso \<Rightarrow> salida option" where
  "verificacion_masiva_goldbach cfg ent p =
     (let n_inicio = asegurar_par (ultimo_n_verificado p + 2)
      in if n_inicio \<ge> n_final cfg
         then Some \<lparr>desenlace = YaCompletada, progreso_final = p, guardados = [], lotes = []\<rparr>
         else if num_cores cfg = 0
         then Some \<lparr>desenlace = Fallida, progreso_final = p, guardados = [p], lotes = []\<rparr>
         else bucle cfg ent
                \<lparr>n_actual = n_inicio, progreso_acum = p, ultimo_guardado = reloj ent 0,
                 ronda = 0, guardados_hasta = [], lotes_hasta = []\<rparr>)"

text \<open>The default configuration of the program, for a machine with \<open>cores + 1\<close> processors.\<close>

definition CONFIG :: "nat \<Rightarrow> config" where
  "CONFIG cores =
     \<lparr>n_inicial = 6, n_final = 10 ^ 6, num_cores = max 1 cores,
      tamano_batch = 10000, intervalo_guardado = 3600\<rparr>"

section \<open>Integer square root, ranges and strike loops\<close>

lemma raiz_entera_cotas: "raiz_entera n * raiz_entera n \<le> n \<and> n < Suc (raiz_entera n) * Suc (raiz_entera n)"
proof (induction n)
  case 0
  show ?case by simp
next
  case (Suc n)
  define r where "r = raiz_entera n"
  have ih: "r * r \<le> n" "n < Suc r * Suc r" using Suc by (simp_all add: r_def)
  show ?case
  proof (cases "Suc r * Suc r \<le> Suc n")
    case True
    then have e: "raiz_entera (Suc n) = Suc r" by (simp add: r_def)
    have "Suc r * Suc r < Suc (Suc r) * Suc (Suc r)" by simp
    with ih True show ?thesis unfolding e by linarith
  next
    case False
    then have e: "raiz_entera (Suc n) = r" by (simp add: r_def)
    from ih False show ?thesis unfolding e by linarith
  qed
qed

lemma cuadrado_mono: "(a::nat) \<le> b \<Longrightarrow> a * a \<le> b * b"
  by (rule mult_le_mono)

lemma raiz_entera_unica:
  assumes "k * k \<le> n" and "n < Suc k * Suc k"
  shows "raiz_entera n = k"
proof -
  define r where "r = raiz_entera n"
  have c: "r * r \<le> n" "n < Suc r * Suc r" using raiz_entera_cotas[of n] by (auto simp: r_def)
  have "\<not> r < k"
  proof
    assume "r < k"
    then have "Suc r \<le> k" by simp
    then have "Suc r * Suc r \<le> k * k" by (rule cuadrado_mono)
    with c assms show False by linarith
  qed
  moreover have "\<not> k < r"
  proof
    assume "k < r"
    then have "Suc k \<le> r" by simp
    then have "Suc k * Suc k \<le> r * r" by (rule cuadrado_mono)
    with c assms show False by linarith
  qed
  ultimately show ?thesis unfolding r_def by linarith
qed

lemma cuadrado_menor_raiz:
  assumes "d * d \<le> n" shows "d \<le> raiz_entera n"
proof (rule ccontr)
  define r where "r = raiz_entera n"
  assume "\<not> d \<le> raiz_entera n"
  then have "Suc r \<le> d" by (simp add: r_def)
  then have "Suc r * Suc r \<le> d * d" by (rule cuadrado_mono)
  with assms raiz_entera_cotas[of n] show False unfolding r_def by linarith
qed

lemma raiz_entera_menor:
  assumes "2 \<le> n" shows "raiz_entera n < n"
proof (rule ccontr)
  define r where "r = raiz_entera n"
  assume "\<not> raiz_entera n < n"
  then have "n \<le> r" by (simp add: r_def)
  then have "n * n \<le> r * r" by (rule cuadrado_mono)
  with raiz_entera_cotas[of n] have "n * n \<le> n" unfolding r_def by linarith
  with assms show False by (cases n) auto
qed

lemma raiz_entera_suc_menor:
  assumes "3 \<le> n" shows "Suc (raiz_entera n) < n"
proof (rule ccontr)
  define r where "r = raiz_entera n"
  assume "\<not> Suc (raiz_entera n) < n"
  then have "n - 1 \<le> r" by (simp add: r_def)
  then have "(n - 1) * (n - 1) \<le> r * r" by (rule cuadrado_mono)
  with raiz_entera_cotas[of n] have b: "(n - 1) * (n - 1) \<le> n" unfolding r_def by linarith
  obtain m where m: "n = m + 3" using assms by (metis add.commute le_Suc_ex)
  from b show False unfolding m by (simp add: algebra_simps)
qed

lemma set_range_nat:
  "0 < paso \<Longrightarrow> set (range_nat a b paso) = {k. a \<le> k \<and> k < b \<and> paso dvd (k - a)}"
proof (induction a b paso rule: range_nat.induct)
  case (1 a b paso)
  show ?case
  proof (cases "a < b")
    case False
    then show ?thesis by (subst range_nat.simps) auto
  next
    case True
    have ih: "set (range_nat (a + paso) b paso) = {k. a + paso \<le> k \<and> k < b \<and> paso dvd (k - (a + paso))}"
      using 1 True by simp
    have "set (range_nat a b paso) = insert a (set (range_nat (a + paso) b paso))"
      using True 1(2) by (subst range_nat.simps) simp
    also have "\<dots> = {k. a \<le> k \<and> k < b \<and> paso dvd (k - a)}"
    proof (rule set_eqI)
      fix k
      show "k \<in> insert a (set (range_nat (a + paso) b paso)) \<longleftrightarrow> k \<in> {k. a \<le> k \<and> k < b \<and> paso dvd (k - a)}"
      proof (cases "k = a")
        case True
        with \<open>a < b\<close> show ?thesis by simp
      next
        case False
        show ?thesis
        proof (cases "a + paso \<le> k")
          case True
          then have "k - a = (k - (a + paso)) + paso" by simp
          then have "paso dvd (k - a) \<longleftrightarrow> paso dvd (k - (a + paso))" by simp
          with True False show ?thesis unfolding ih by auto
        next
          case nle: False
          have "\<not> (a \<le> k \<and> paso dvd (k - a))"
          proof
            assume h: "a \<le> k \<and> paso dvd (k - a)"
            with False have "0 < k - a" by simp
            with h have "paso \<le> k - a" by (auto dest: dvd_imp_le)
            with nle h show False by simp
          qed
          with nle False show ?thesis unfolding ih by auto
        qed
      qed
    qed
    finally show ?thesis .
  qed
qed

lemma nth_tachar_uno: "k < length es \<Longrightarrow> es[i := False] ! k = (es ! k \<and> k \<noteq> i)"
  by (cases "i < length es") (auto simp: nth_list_update)

lemma length_fold_tachar: "length (fold (\<lambda>j es. es[f j := False]) js es) = length es"
  by (induction js arbitrary: es) auto

lemma nth_fold_tachar:
  "k < length es \<Longrightarrow> fold (\<lambda>j es. es[f j := False]) js es ! k = (es ! k \<and> k \<notin> f ` set js)"
  by (induction js arbitrary: es) (auto simp: nth_tachar_uno)

section \<open>The sieve loop computes primality\<close>

lemma primo_iff_sin_divisor:
  "primo k \<longleftrightarrow> 2 \<le> k \<and> (\<forall>d. 2 \<le> d \<and> d * d \<le> k \<longrightarrow> \<not> d dvd k)"
proof
  assume p: "primo k"
  show "2 \<le> k \<and> (\<forall>d. 2 \<le> d \<and> d * d \<le> k \<longrightarrow> \<not> d dvd k)"
  proof (intro conjI allI impI notI)
    show "2 \<le> k" using p by (simp add: primo_def)
  next
    fix d assume h: "2 \<le> d \<and> d * d \<le> k" and dv: "d dvd k"
    from p dv have "d = 1 \<or> d = k" by (simp add: primo_def)
    with h have "d = k" by auto
    with h have "k * k \<le> k * 1" by simp
    then have "k \<le> 1" using h \<open>d = k\<close> by (simp only: mult_le_cancel1) auto
    with h \<open>d = k\<close> show False by simp
  qed
next
  assume a: "2 \<le> k \<and> (\<forall>d. 2 \<le> d \<and> d * d \<le> k \<longrightarrow> \<not> d dvd k)"
  show "primo k"
    unfolding primo_def
  proof (intro conjI allI impI)
    show "2 \<le> k" using a by simp
  next
    fix d assume dv: "d dvd k"
    show "d = 1 \<or> d = k"
    proof (rule ccontr)
      assume n: "\<not> (d = 1 \<or> d = k)"
      from dv obtain e where e: "k = d * e" by (auto simp: dvd_def)
      have d0: "d \<noteq> 0" "e \<noteq> 0" using a e by auto
      have "e \<noteq> 1" using n e by auto
      with d0 n have d2: "2 \<le> d" "2 \<le> e" by arith+
      show False
      proof (cases "d \<le> e")
        case True
        then have "d * d \<le> k" unfolding e by simp
        with a d2 dv show False by blast
      next
        case False
        then have "e * e \<le> k" unfolding e by simp
        moreover have "e dvd k" unfolding e by simp
        ultimately show False using a d2 by blast
      qed
    qed
  qed
qed

lemma nth_tachar_multiplos:
  assumes "0 < i" and "k < length es"
  shows "tachar_multiplos tope i es ! k = (es ! k \<and> \<not> (i * i \<le> k \<and> k < tope \<and> i dvd k))"
proof -
  have d: "i * i \<le> k \<Longrightarrow> i dvd (k - i * i) \<longleftrightarrow> i dvd k"
    by (metis dvd_diff_nat dvd_triv_left le_add_diff_inverse dvd_add)
  have "tachar_multiplos tope i es ! k = (es ! k \<and> k \<notin> set (range_nat (i * i) tope i))"
    unfolding tachar_multiplos_def using nth_fold_tachar[OF assms(2), of "\<lambda>j. j"] by simp
  also have "\<dots> = (es ! k \<and> \<not> (i * i \<le> k \<and> k < tope \<and> i dvd k))"
    using d by (auto simp: set_range_nat[OF assms(1)])
  finally show ?thesis .
qed

lemma length_tachar_multiplos: "length (tachar_multiplos tope i es) = length es"
  unfolding tachar_multiplos_def by (rule length_fold_tachar)

lemma paso_criba_inv:
  assumes len: "length es = tope" and m: "2 \<le> m" "m < tope"
    and inv: "\<forall>k<tope. es ! k = (2 \<le> k \<and> (\<forall>d. 2 \<le> d \<and> d < m \<and> d * d \<le> k \<longrightarrow> \<not> d dvd k))"
  shows "length (paso_criba tope m es) = tope \<and>
         (\<forall>k<tope. paso_criba tope m es ! k =
            (2 \<le> k \<and> (\<forall>d. 2 \<le> d \<and> d < Suc m \<and> d * d \<le> k \<longrightarrow> \<not> d dvd k)))"
proof (intro conjI allI impI)
  show "length (paso_criba tope m es) = tope"
    using len by (simp add: paso_criba_def length_tachar_multiplos)
next
  fix k assume k: "k < tope"
  have paso: "(\<forall>d. 2 \<le> d \<and> d < Suc m \<and> d * d \<le> k \<longrightarrow> \<not> d dvd k) \<longleftrightarrow>
              (\<forall>d. 2 \<le> d \<and> d < m \<and> d * d \<le> k \<longrightarrow> \<not> d dvd k) \<and> \<not> (m * m \<le> k \<and> m dvd k)"
    using m(1) by (auto simp: less_Suc_eq)
  show "paso_criba tope m es ! k =
          (2 \<le> k \<and> (\<forall>d. 2 \<le> d \<and> d < Suc m \<and> d * d \<le> k \<longrightarrow> \<not> d dvd k))"
  proof (cases "es ! m")
    case True
    have "paso_criba tope m es ! k = (es ! k \<and> \<not> (m * m \<le> k \<and> k < tope \<and> m dvd k))"
      using True m k len by (simp add: paso_criba_def nth_tachar_multiplos)
    then show ?thesis using inv k paso by auto
  next
    case False
    with inv m obtain d0 where d0: "2 \<le> d0" "d0 < m" "d0 * d0 \<le> m" "d0 dvd m" by auto
    have "\<not> (m * m \<le> k \<and> m dvd k)"
      if j: "\<forall>d. 2 \<le> d \<and> d < m \<and> d * d \<le> k \<longrightarrow> \<not> d dvd k"
    proof
      assume h: "m * m \<le> k \<and> m dvd k"
      have "m \<le> m * m" by simp
      with d0 h have "d0 * d0 \<le> k" by linarith
      moreover have "d0 dvd k" using d0 h by (auto intro: dvd_trans)
      ultimately show False using j d0 by blast
    qed
    then have "(\<forall>d. 2 \<le> d \<and> d < Suc m \<and> d * d \<le> k \<longrightarrow> \<not> d dvd k) \<longleftrightarrow>
               (\<forall>d. 2 \<le> d \<and> d < m \<and> d * d \<le> k \<longrightarrow> \<not> d dvd k)"
      unfolding paso by blast
    then show ?thesis using False inv k by (simp add: paso_criba_def)
  qed
qed

lemma fold_paso_criba_inv:
  assumes len: "length es = tope"
    and inv: "\<forall>k<tope. es ! k = (2 \<le> k)"
    and n: "2 \<le> n" "n \<le> tope"
  shows "length (fold (paso_criba tope) [2..<n] es) = tope \<and>
         (\<forall>k<tope. fold (paso_criba tope) [2..<n] es ! k =
            (2 \<le> k \<and> (\<forall>d. 2 \<le> d \<and> d < n \<and> d * d \<le> k \<longrightarrow> \<not> d dvd k)))"
  using n
proof (induction n rule: nat_induct_at_least)
  case base
  have "\<not> (2 \<le> d \<and> d < 2)" for d :: nat by simp
  then show ?case using len inv by auto
next
  case (Suc n)
  define es' where "es' = fold (paso_criba tope) [2..<n] es"
  have ih: "length es' = tope"
    "\<forall>k<tope. es' ! k = (2 \<le> k \<and> (\<forall>d. 2 \<le> d \<and> d < n \<and> d * d \<le> k \<longrightarrow> \<not> d dvd k))"
    using Suc by (simp_all add: es'_def)
  have u: "fold (paso_criba tope) [2..<Suc n] es = paso_criba tope n es'"
    using Suc(1) by (simp add: es'_def)
  have "n < tope" using Suc.prems by simp
  from paso_criba_inv[OF ih(1) Suc(1) this ih(2)] show ?case unfolding u .
qed

lemma arreglo_inicial:
  "length ((replicate tope True)[0 := False, 1 := False]) = tope"
  "k < tope \<Longrightarrow> (replicate tope True)[0 := False, 1 := False] ! k = (2 \<le> k)"
  by (auto simp: nth_tachar_uno)

lemma criba_arreglo_primo:
  assumes t: "2 \<le> tope" and r: "r < tope" and c: "tope \<le> Suc r * Suc r" and k: "k < tope"
  shows "fold (paso_criba tope) [2..<r + 1] ((replicate tope True)[0 := False, 1 := False]) ! k = primo k"
proof -
  define es0 where "es0 = (replicate tope True)[0 := False, 1 := False]"
  define n where "n = max 2 (r + 1)"
  have e: "[2..<r + 1] = [2..<n]" by (cases "2 \<le> r + 1") (auto simp: n_def)
  have n2: "2 \<le> n" and nt: "n \<le> tope" and rn: "Suc r \<le> n" using t r by (auto simp: n_def)
  have i0a: "length es0 = tope"
    unfolding es0_def by (rule arreglo_inicial(1))
  have i0b: "\<forall>k<tope. es0 ! k = (2 \<le> k)"
    unfolding es0_def by (intro allI impI) (rule arreglo_inicial(2))
  note i0 = i0a i0b
  have inv: "fold (paso_criba tope) [2..<n] es0 ! k =
      (2 \<le> k \<and> (\<forall>d. 2 \<le> d \<and> d < n \<and> d * d \<le> k \<longrightarrow> \<not> d dvd k))"
    using fold_paso_criba_inv[OF i0 n2 nt] k by blast
  have "d < n" if "d * d \<le> k" for d
  proof (rule ccontr)
    assume "\<not> d < n"
    with rn have "Suc r \<le> d" by simp
    then have "Suc r * Suc r \<le> d * d" by (rule cuadrado_mono)
    with c k that show False by linarith
  qed
  then have "(\<forall>d. 2 \<le> d \<and> d < n \<and> d * d \<le> k \<longrightarrow> \<not> d dvd k) \<longleftrightarrow>
             (\<forall>d. 2 \<le> d \<and> d * d \<le> k \<longrightarrow> \<not> d dvd k)" by blast
  with inv show ?thesis unfolding e primo_iff_sin_divisor es0_def by simp
qed

lemma filter_upt_cong: "(\<And>k. a \<le> k \<Longrightarrow> k < b \<Longrightarrow> P k = Q k) \<Longrightarrow> filter P [a..<b] = filter Q [a..<b]"
  by (rule filter_cong) auto

lemma primos_pequenos_primos:
  assumes "2 \<le> sl"
  shows "primos_pequenos sl = filter primo [0..<sl]"
proof -
  have r: "raiz_entera sl < sl" using assms by (rule raiz_entera_menor)
  have c: "sl \<le> Suc (raiz_entera sl) * Suc (raiz_entera sl)"
    using raiz_entera_cotas[of sl] by simp
  show ?thesis
    unfolding primos_pequenos_def Let_def
    by (rule filter_upt_cong) (rule criba_arreglo_primo[OF assms r c])
qed

lemma criba_simple_arreglo_primo:
  assumes "2 \<le> limite" and "k \<le> limite"
  shows "criba_simple_arreglo limite ! k = primo k"
proof -
  have r: "raiz_entera limite < limite + 1" using raiz_entera_menor[OF assms(1)] by simp
  have c: "limite + 1 \<le> Suc (raiz_entera limite) * Suc (raiz_entera limite)"
    using raiz_entera_cotas[of limite] by simp
  have t: "2 \<le> limite + 1" using assms by simp
  have k: "k < limite + 1" using assms by simp
  show ?thesis unfolding criba_simple_arreglo_def
    by (rule criba_arreglo_primo[OF t r c k])
qed

section \<open>The segments of the segmented sieve\<close>

lemma factor_primo: "2 \<le> d \<Longrightarrow> \<exists>q. primo q \<and> q dvd d"
proof (induction d rule: less_induct)
  case (less d)
  show ?case
  proof (cases "primo d")
    case True
    then show ?thesis by auto
  next
    case False
    with less.prems obtain e where e: "e dvd d" "e \<noteq> 1" "e \<noteq> d" by (auto simp: primo_def)
    have "e \<noteq> 0" using e less.prems by auto
    with e have e2: "2 \<le> e" by arith
    have "e \<le> d" using e less.prems by (auto intro: dvd_imp_le)
    with e have "e < d" by simp
    from less.IH[OF this e2] obtain q where "primo q" "q dvd e" by auto
    with e show ?thesis by (auto intro: dvd_trans)
  qed
qed

lemma primer_multiplo_props:
  assumes p: "0 < p" "p < inicio"
  shows "p dvd primer_multiplo inicio p"
    and "inicio \<le> primer_multiplo inicio p"
    and "primer_multiplo inicio p < inicio + p"
proof -
  define a where "a = inicio + p - 1"
  define m0 where "m0 = (a div p) * p"
  have e: "a = m0 + a mod p" unfolding m0_def by simp
  have "a mod p < p" using p by simp
  with e have lo: "inicio \<le> m0" and hi: "m0 < inicio + p" using p unfolding a_def by linarith+
  have "primer_multiplo inicio p = m0"
    using lo p unfolding primer_multiplo_def Let_def m0_def a_def by auto
  then show "p dvd primer_multiplo inicio p" "inicio \<le> primer_multiplo inicio p"
    "primer_multiplo inicio p < inicio + p"
    using lo hi by (simp_all add: m0_def)
qed

lemma set_range_multiplos:
  assumes p: "0 < p" "p < inicio"
  shows "set (range_nat (primer_multiplo inicio p) fin p) = {j. inicio \<le> j \<and> j < fin \<and> p dvd j}"
proof -
  define m where "m = primer_multiplo inicio p"
  have m: "p dvd m" "inicio \<le> m" "m < inicio + p"
    using primer_multiplo_props[OF p] by (simp_all add: m_def)
  have d: "p dvd (j - m) \<longleftrightarrow> p dvd j" if "m \<le> j" for j
    using that m(1) by (metis dvd_diff_nat dvd_add le_add_diff_inverse2)
  have l: "m \<le> j" if "inicio \<le> j" "p dvd j" for j
  proof (rule ccontr)
    assume "\<not> m \<le> j"
    then have lt: "j < m" by simp
    have "p dvd (m - j)" using m(1) that(2) by (rule dvd_diff_nat)
    moreover have "0 < m - j" using lt by simp
    ultimately have "p \<le> m - j" by (auto dest: dvd_imp_le)
    with that m lt show False by linarith
  qed
  show ?thesis
    unfolding m_def[symmetric] set_range_nat[OF p(1)]
    using d l m(2) by auto
qed

lemma nth_tachar_en_segmento:
  assumes p: "0 < p" "p < inicio" and i: "i < length seg"
  shows "tachar_en_segmento inicio fin p seg ! i =
           (seg ! i \<and> \<not> (inicio + i < fin \<and> p dvd (inicio + i)))"
proof -
  have "i \<in> (\<lambda>j. j - inicio) ` {j. inicio \<le> j \<and> j < fin \<and> p dvd j} \<longleftrightarrow>
        inicio + i < fin \<and> p dvd (inicio + i)"
  proof
    assume "i \<in> (\<lambda>j. j - inicio) ` {j. inicio \<le> j \<and> j < fin \<and> p dvd j}"
    then obtain j where j: "i = j - inicio" "inicio \<le> j" "j < fin" "p dvd j" by auto
    then have "inicio + i = j" by simp
    with j show "inicio + i < fin \<and> p dvd (inicio + i)" by simp
  next
    assume h: "inicio + i < fin \<and> p dvd (inicio + i)"
    have "i = (inicio + i) - inicio" by simp
    moreover have "inicio + i \<in> {j. inicio \<le> j \<and> j < fin \<and> p dvd j}" using h by simp
    ultimately show "i \<in> (\<lambda>j. j - inicio) ` {j. inicio \<le> j \<and> j < fin \<and> p dvd j}"
      by (rule image_eqI)
  qed
  then show ?thesis
    unfolding tachar_en_segmento_def
    using nth_fold_tachar[OF i, of "\<lambda>j. j - inicio"] set_range_multiplos[OF p, of fin]
    by simp
qed

lemma length_tachar_en_segmento: "length (tachar_en_segmento inicio fin p seg) = length seg"
  unfolding tachar_en_segmento_def by (rule length_fold_tachar)

lemma fold_tachar_en_segmento:
  assumes "\<forall>p\<in>set pp. 0 < p \<and> p < inicio" and "i < length seg" and "inicio + i < fin"
  shows "length (fold (tachar_en_segmento inicio fin) pp seg) = length seg \<and>
         fold (tachar_en_segmento inicio fin) pp seg ! i =
           (seg ! i \<and> (\<forall>p\<in>set pp. \<not> p dvd (inicio + i)))"
  using assms
proof (induction pp arbitrary: seg)
  case Nil
  show ?case by simp
next
  case (Cons p pp)
  have p: "0 < p" "p < inicio" using Cons.prems by auto
  have l: "i < length (tachar_en_segmento inicio fin p seg)"
    using Cons.prems by (simp add: length_tachar_en_segmento)
  have "\<forall>p\<in>set pp. 0 < p \<and> p < inicio" using Cons.prems by simp
  from Cons.IH[OF this l Cons.prems(3)] show ?case
    using nth_tachar_en_segmento[OF p Cons.prems(2), of fin] Cons.prems(3)
    by (auto simp: length_tachar_en_segmento)
qed

lemma cribar_segmento_nth:
  assumes "\<forall>p\<in>set pp. 0 < p \<and> p < inicio" and "i < fin - inicio"
  shows "cribar_segmento pp inicio fin ! i = (\<forall>p\<in>set pp. \<not> p dvd (inicio + i))"
proof -
  have "i < length (replicate (fin - inicio) True)" "inicio + i < fin" using assms(2) by auto
  from fold_tachar_en_segmento[OF assms(1) this] show ?thesis
    using assms(2) unfolding cribar_segmento_def by simp
qed

lemma length_cribar_segmento: "length (cribar_segmento pp inicio fin) = fin - inicio"
  unfolding cribar_segmento_def
  by (induction pp arbitrary: fin rule: rev_induct) (auto simp: length_tachar_en_segmento)

lemma supervivientes:
  "[inicio + i. i \<leftarrow> [0..<n], seg ! i] = filter (\<lambda>m. seg ! (m - inicio)) [inicio..<inicio + n]"
proof -
  have "[inicio + i. i \<leftarrow> [0..<n], seg ! i] = map (\<lambda>i. i + inicio) (filter (\<lambda>i. seg ! i) [0..<n])"
    by (induction n) (auto simp: add.commute)
  also have "\<dots> = filter (\<lambda>m. seg ! (m - inicio)) (map (\<lambda>i. i + inicio) [0..<n])"
    by (simp add: filter_map comp_def)
  also have "map (\<lambda>i. i + inicio) [0..<n] = [inicio..<inicio + n]"
    by (simp add: map_add_upt add.commute)
  finally show ?thesis .
qed

section \<open>Both sieves return the primes up to the limit\<close>

lemma upt_partir: "a \<le> b \<Longrightarrow> b \<le> c \<Longrightarrow> [a..<b] @ [b..<c] = [a..<c]"
  by (metis le_Suc_ex upt_add_eq_append)

lemma sin_factor_pequeno_primo:
  assumes sl: "sl = raiz_entera limite + 1" and m: "sl \<le> m" "m \<le> limite"
  shows "(\<forall>p\<in>set (filter primo [0..<sl]). \<not> p dvd m) \<longleftrightarrow> primo m"
proof
  assume pm: "primo m"
  show "\<forall>p\<in>set (filter primo [0..<sl]). \<not> p dvd m"
  proof
    fix p assume "p \<in> set (filter primo [0..<sl])"
    then have p: "primo p" "p < sl" by auto
    show "\<not> p dvd m"
    proof
      assume "p dvd m"
      with pm have "p = 1 \<or> p = m" by (simp add: primo_def)
      with p m show False by (auto simp: primo_def)
    qed
  qed
next
  assume a: "\<forall>p\<in>set (filter primo [0..<sl]). \<not> p dvd m"
  have "1 * 1 \<le> limite" using m sl by simp
  then have "1 \<le> raiz_entera limite" by (rule cuadrado_menor_raiz)
  then have m2: "2 \<le> m" using m sl by simp
  show "primo m"
    unfolding primo_iff_sin_divisor
  proof (intro conjI allI impI notI)
    show "2 \<le> m" by (rule m2)
  next
    fix d assume d: "2 \<le> d \<and> d * d \<le> m" and dv: "d dvd m"
    from factor_primo[of d] d obtain q where q: "primo q" "q dvd d" by auto
    have "q \<le> d" using q d by (auto intro: dvd_imp_le)
    then have "q * q \<le> d * d" by (rule cuadrado_mono)
    with d m have "q * q \<le> limite" by linarith
    then have "q \<le> raiz_entera limite" by (rule cuadrado_menor_raiz)
    then have "q < sl" using sl by simp
    then have "q \<in> set (filter primo [0..<sl])" using q by simp
    moreover have "q dvd m" using q dv by (auto intro: dvd_trans)
    ultimately show False using a by blast
  qed
qed

lemma paso_segmento_primos:
  assumes sl: "sl = raiz_entera limite + 1" and i: "sl \<le> inicio"
  shows "paso_segmento (filter primo [0..<sl]) limite tam inicio primos =
           primos @ filter primo [inicio..<min (inicio + tam) (limite + 1)]"
proof -
  define fin where "fin = min (inicio + tam) (limite + 1)"
  define pp where "pp = filter primo [0..<sl]"
  define seg where "seg = cribar_segmento pp inicio fin"
  have pp: "\<forall>p\<in>set pp. 0 < p \<and> p < inicio" using i by (auto simp: pp_def primo_def)
  have len: "length seg = fin - inicio" unfolding seg_def by (rule length_cribar_segmento)
  have "[inicio + i. i \<leftarrow> [0..<length seg], seg ! i] =
          filter (\<lambda>m. seg ! (m - inicio)) [inicio..<inicio + length seg]"
    by (rule supervivientes)
  also have "[inicio..<inicio + length seg] = [inicio..<fin]"
    unfolding len by (cases "inicio \<le> fin") auto
  also have "filter (\<lambda>m. seg ! (m - inicio)) [inicio..<fin] = filter primo [inicio..<fin]"
  proof (rule filter_upt_cong)
    fix m assume m: "inicio \<le> m" "m < fin"
    then have "m - inicio < fin - inicio" by simp
    from cribar_segmento_nth[OF pp this]
    have "seg ! (m - inicio) = (\<forall>p\<in>set pp. \<not> p dvd m)" using m by (simp add: seg_def)
    also have "\<dots> = primo m"
      unfolding pp_def using sin_factor_pequeno_primo[OF sl, of m] m i by (simp add: fin_def)
    finally show "seg ! (m - inicio) = primo m" .
  qed
  finally show ?thesis
    unfolding paso_segmento_def Let_def fin_def[symmetric] pp_def[symmetric] seg_def[symmetric]
    by simp
qed

lemma concat_range_upt:
  "0 < tam \<Longrightarrow> a \<le> b \<Longrightarrow>
     concat (map (\<lambda>i. filter P [i..<min (i + tam) b]) (range_nat a b tam)) = filter P [a..<b]"
proof (induction a b tam rule: range_nat.induct)
  case (1 a b tam)
  show ?case
  proof (cases "a < b")
    case False
    then show ?thesis using 1(3) by (subst range_nat.simps) simp
  next
    case True
    have r: "range_nat a b tam = a # range_nat (a + tam) b tam"
      using True 1(2) by (subst range_nat.simps) simp
    show ?thesis
    proof (cases "a + tam \<le> b")
      case le: True
      have ih: "concat (map (\<lambda>i. filter P [i..<min (i + tam) b]) (range_nat (a + tam) b tam))
                  = filter P [a + tam..<b]"
        using 1 True le by simp
      have "[a..<b] = [a..<a + tam] @ [a + tam..<b]"
        using le by (simp add: upt_partir)
      then show ?thesis unfolding r using ih le by (simp add: min_def)
    next
      case False
      then have "range_nat (a + tam) b tam = []" by (subst range_nat.simps) simp
      then show ?thesis unfolding r using False by (simp add: min_def)
    qed
  qed
qed

lemma fold_extender:
  "(\<And>x acc. x \<in> set xs \<Longrightarrow> f x acc = acc @ g x) \<Longrightarrow> fold f xs acc = acc @ concat (map g xs)"
  by (induction xs arbitrary: acc) auto

lemma criba_fases_primos:
  assumes "3 \<le> limite"
  shows "criba_fases limite = filter primo [0..<limite + 1]"
proof -
  define sl where "sl = raiz_entera limite + 1"
  define tam where "tam = min sl (10 ^ 6)"
  have sl2: "2 \<le> sl"
    using cuadrado_menor_raiz[of 1 limite] assms by (simp add: sl_def)
  have sll: "sl < limite" using raiz_entera_suc_menor[OF assms] by (simp add: sl_def)
  have tam: "0 < tam" using sl2 by (simp add: tam_def)
  have pp: "primos_pequenos sl = filter primo [0..<sl]" by (rule primos_pequenos_primos[OF sl2])
  have "criba_fases limite =
          fold (paso_segmento (filter primo [0..<sl]) limite tam) (range_nat sl (limite + 1) tam)
            (filter primo [0..<sl])"
    using sll unfolding criba_fases_def Let_def sl_def[symmetric] tam_def[symmetric] pp by simp
  also have "\<dots> = filter primo [0..<sl] @
      concat (map (\<lambda>i. filter primo [i..<min (i + tam) (limite + 1)]) (range_nat sl (limite + 1) tam))"
  proof (rule fold_extender)
    fix x acc assume "x \<in> set (range_nat sl (limite + 1) tam)"
    then have "sl \<le> x" by (simp add: set_range_nat[OF tam])
    then show "paso_segmento (filter primo [0..<sl]) limite tam x acc =
                 acc @ filter primo [x..<min (x + tam) (limite + 1)]"
      by (rule paso_segmento_primos[OF sl_def])
  qed
  also have "\<dots> = filter primo [0..<sl] @ filter primo [sl..<limite + 1]"
    using concat_range_upt[OF tam, of sl "limite + 1" primo] sll by simp
  also have "\<dots> = filter primo ([0..<sl] @ [sl..<limite + 1])" by simp
  also have "[0..<sl] @ [sl..<limite + 1] = [0..<limite + 1]"
    using sll by (intro upt_partir) simp_all
  finally show ?thesis .
qed

lemma sin_primos_bajo: "n \<le> 2 \<Longrightarrow> filter primo [0..<n] = []"
  unfolding filter_empty_conv by (simp add: primo_def)

lemma criba_eratostenes_simple_primos:
  "criba_eratostenes_simple limite = map int (filter primo [0..<nat limite + 1])"
proof (cases "limite < 2")
  case True
  then have "nat limite + 1 \<le> 2" by simp
  then have "filter primo [0..<nat limite + 1] = []" by (rule sin_primos_bajo)
  with True show ?thesis by (simp add: criba_eratostenes_simple_def)
next
  case False
  then have l: "2 \<le> nat limite" by simp
  have "filter (\<lambda>i. criba_simple_arreglo (nat limite) ! i) [0..<nat limite + 1] =
        filter primo [0..<nat limite + 1]"
    by (rule filter_upt_cong) (simp add: criba_simple_arreglo_primo[OF l])
  with False show ?thesis by (simp add: criba_eratostenes_simple_def Let_def del: upt_Suc)
qed

lemma criba_eratostenes_segmentada_primos:
  assumes "limite \<noteq> 2"
  shows "criba_eratostenes_segmentada limite = map int (filter primo [0..<nat limite + 1])"
proof (cases "limite < 2")
  case True
  then have "nat limite + 1 \<le> 2" by simp
  then have "filter primo [0..<nat limite + 1] = []" by (rule sin_primos_bajo)
  with True show ?thesis by (simp add: criba_eratostenes_segmentada_def)
next
  case False
  with assms have "3 \<le> nat limite" by simp
  from criba_fases_primos[OF this] False show ?thesis
    by (simp add: criba_eratostenes_segmentada_def del: upt_Suc)
qed

section \<open>The verifier makes its start even\<close>

lemma set_range_int:
  "0 < paso \<Longrightarrow> set (range_int a b paso) = {k. a \<le> k \<and> k < b \<and> paso dvd (k - a)}"
proof (induction a b paso rule: range_int.induct)
  case (1 a b paso)
  show ?case
  proof (cases "a < b")
    case False
    then show ?thesis by (subst range_int.simps) auto
  next
    case True
    have ih: "set (range_int (a + paso) b paso) = {k. a + paso \<le> k \<and> k < b \<and> paso dvd (k - (a + paso))}"
      using 1 True by simp
    have "set (range_int a b paso) = insert a (set (range_int (a + paso) b paso))"
      using True 1(2) by (subst range_int.simps) simp
    also have "\<dots> = {k. a \<le> k \<and> k < b \<and> paso dvd (k - a)}"
    proof (rule set_eqI)
      fix k
      show "k \<in> insert a (set (range_int (a + paso) b paso)) \<longleftrightarrow> k \<in> {k. a \<le> k \<and> k < b \<and> paso dvd (k - a)}"
      proof (cases "k = a")
        case True
        with \<open>a < b\<close> show ?thesis by simp
      next
        case False
        have dv: "paso dvd (k - a) \<longleftrightarrow> paso dvd (k - (a + paso))"
          using dvd_add_triv_right_iff[of paso "k - (a + paso)"] by (simp add: algebra_simps)
        show ?thesis
        proof (cases "a + paso \<le> k")
          case True
          with False dv 1(2) show ?thesis unfolding ih by auto
        next
          case nle: False
          have "\<not> (a \<le> k \<and> paso dvd (k - a))"
          proof
            assume h: "a \<le> k \<and> paso dvd (k - a)"
            with False have "0 < k - a" by simp
            with h have "paso \<le> k - a" by (auto dest: zdvd_imp_le)
            with nle show False by simp
          qed
          with nle False show ?thesis unfolding ih by auto
        qed
      qed
    qed
    finally show ?thesis .
  qed
qed

lemma range_int_creciente:
  "0 < paso \<Longrightarrow> sorted (range_int a b paso) \<and> distinct (range_int a b paso)"
proof (induction a b paso rule: range_int.induct)
  case (1 a b paso)
  show ?case
  proof (cases "a < b")
    case False
    then show ?thesis by (subst (1 2) range_int.simps) simp
  next
    case True
    have r: "range_int a b paso = a # range_int (a + paso) b paso"
      using True 1(2) by (subst range_int.simps) simp
    have "\<forall>k\<in>set (range_int (a + paso) b paso). a < k"
      using 1(2) by (auto simp: set_range_int)
    then show ?thesis unfolding r using 1 True by auto
  qed
qed

lemma asegurar_par_par: "even (asegurar_par n)"
  unfolding asegurar_par_def by presburger

lemma asegurar_par_impar: "odd n \<Longrightarrow> asegurar_par n = n + 1"
  unfolding asegurar_par_def by presburger

lemma asegurar_par_de_par: "even n \<Longrightarrow> asegurar_par n = n"
  unfolding asegurar_par_def by presburger

lemma set_numeros_verificados:
  "set (numeros_verificados (a, b, v)) = {n. even n \<and> a \<le> n \<and> n \<le> b}"
proof -
  have "set (numeros_verificados (a, b, v)) =
          {n. asegurar_par a \<le> n \<and> n < b + 1 \<and> 2 dvd (n - asegurar_par a)}"
    unfolding numeros_verificados_def by (simp add: set_range_int)
  also have "\<dots> = {n. even n \<and> a \<le> n \<and> n \<le> b}"
    using asegurar_par_par[of a] unfolding asegurar_par_def
    by (auto; presburger)
  finally show ?thesis .
qed

lemma rango_verificar:
  "rango (fst (verificar_goldbach_rango cache (a, b, v) lecturas)) = (asegurar_par a, b)"
proof -
  have f: "rango (fold (verificar_numero ps S) ns r) = rango r" for ps S ns r
    by (induction ns arbitrary: r) (auto simp: verificar_numero_def Let_def)
  show ?thesis
    unfolding verificar_goldbach_rango_def by (simp add: f Let_def split: prod.splits)
qed

lemma verificar_inicio_impar:
  assumes "odd a"
  shows "verificar_goldbach_rango cache (a, b, v) lecturas =
         verificar_goldbach_rango cache (a + 1, b, v) lecturas"
proof -
  have "asegurar_par (a + 1) = asegurar_par a"
    using assms by (simp add: asegurar_par_impar asegurar_par_de_par)
  then show ?thesis
    unfolding verificar_goldbach_rango_def numeros_verificados_def by simp
qed

lemma verificados_fold:
  "verificados (fold (verificar_numero ps S) ns r) = verificados r + int (length ns)"
  by (induction ns arbitrary: r) (auto simp: verificar_numero_def Let_def)

lemma verificados_verificar:
  "verificados (fst (verificar_goldbach_rango cache args lecturas)) =
     int (length (numeros_verificados args))"
  unfolding verificar_goldbach_rango_def
  by (simp add: verificados_fold Let_def split: prod.splits)

text \<open>
  Claim C6. For every odd start value passed to the batch verifier, the start is advanced
  to the next even integer before verification: the numbers verified are those of
  \<^verbatim>\<open>range(n_inicio + 1, n_fin + 1, 2)\<close>, the odd value itself is not among them, they
  are exactly the even numbers from \<open>n_inicio + 1\<close> to \<open>n_fin\<close>, each once, and the
  whole result is the one of the batch that starts at \<open>n_inicio + 1\<close>.
\<close>

theorem inicio_impar_avanza_al_par_siguiente:
  assumes "odd n_inicio"
  shows "numeros_verificados (n_inicio, n_fin, v) = range_int (n_inicio + 1) (n_fin + 1) 2
       \<and> n_inicio \<notin> set (numeros_verificados (n_inicio, n_fin, v))
       \<and> set (numeros_verificados (n_inicio, n_fin, v)) = {n. even n \<and> n_inicio + 1 \<le> n \<and> n \<le> n_fin}
       \<and> distinct (numeros_verificados (n_inicio, n_fin, v))
       \<and> rango (fst (verificar_goldbach_rango cache (n_inicio, n_fin, v) lecturas)) = (n_inicio + 1, n_fin)
       \<and> verificados (fst (verificar_goldbach_rango cache (n_inicio, n_fin, v) lecturas))
           = int (length (range_int (n_inicio + 1) (n_fin + 1) 2))
       \<and> verificar_goldbach_rango cache (n_inicio, n_fin, v) lecturas
           = verificar_goldbach_rango cache (n_inicio + 1, n_fin, v) lecturas"
proof -
  have n: "numeros_verificados (n_inicio, n_fin, v) = range_int (n_inicio + 1) (n_fin + 1) 2"
    unfolding numeros_verificados_def using assms by (simp add: asegurar_par_impar)
  have s: "set (numeros_verificados (n_inicio, n_fin, v)) = {n. even n \<and> n_inicio + 1 \<le> n \<and> n \<le> n_fin}"
    unfolding set_numeros_verificados using assms by (auto; presburger)
  have d: "distinct (numeros_verificados (n_inicio, n_fin, v))"
    unfolding numeros_verificados_def using range_int_creciente[of 2] by simp
  have r: "rango (fst (verificar_goldbach_rango cache (n_inicio, n_fin, v) lecturas)) = (n_inicio + 1, n_fin)"
    unfolding rango_verificar using assms by (simp add: asegurar_par_impar)
  have c: "verificados (fst (verificar_goldbach_rango cache (n_inicio, n_fin, v) lecturas))
           = int (length (range_int (n_inicio + 1) (n_fin + 1) 2))"
    unfolding verificados_verificar n ..
  from n s d r c verificar_inicio_impar[OF assms] assms show ?thesis
    unfolding set_numeros_verificados by auto
qed

theorem inicio_impar_avanza_al_par_siguiente_witness:
  "odd (7::int)
   \<and> numeros_verificados (7, 12, False) = [8, 10, 12]
   \<and> 7 \<notin> set (numeros_verificados (7, 12, False))
   \<and> rango (fst (verificar_goldbach_rango Map.empty (7, 12, False) (0, 1))) = (8, 12)
   \<and> verificados (fst (verificar_goldbach_rango Map.empty (7, 12, False) (0, 1))) = 3"
proof -
  have o: "odd (7::int)" by simp
  have e: "range_int 8 13 2 = [8, 10, 12]" by (simp add: range_int.simps)
  note t = inicio_impar_avanza_al_par_siguiente[OF o, of 12 False Map.empty "(0, 1)"]
  note t1 = t[THEN conjunct1]
  note t2 = t[THEN conjunct2, THEN conjunct1]
  note t5 = t[THEN conjunct2, THEN conjunct2, THEN conjunct2, THEN conjunct2, THEN conjunct1]
  note t6 = t[THEN conjunct2, THEN conjunct2, THEN conjunct2, THEN conjunct2, THEN conjunct2,
              THEN conjunct1]
  from t1 t2 t5 t6 o show ?thesis by (simp add: e)
qed

section \<open>The limit 2, and loading the checkpoint\<close>

lemma primo_dos: "primo 2"
  unfolding primo_iff_sin_divisor
proof (intro conjI allI impI)
  fix d :: nat assume h: "2 \<le> d \<and> d * d \<le> 2"
  then have "2 * 2 \<le> d * d" by (intro mult_le_mono) simp_all
  with h show "\<not> d dvd 2" by simp
qed simp

text \<open>
  Claim C3, at the limit 2. The claim is that the segmented sieve returns the primes up
  to the limit for every limit, as the flat sieve does, the limit 2 included. At
  \<open>limite = 2\<close> the branch \<^verbatim>\<open>limite <= sqrt_limite\<close> returns the small primes, which
  are the primes below 2: the segmented sieve returns the empty list, the flat sieve
  returns \<open>[2]\<close>, and 2 is prime (\<open>primo_dos\<close>).
\<close>

theorem criba_segmentada_pierde_el_dos:
  "criba_eratostenes_segmentada 2 = [] \<and> criba_eratostenes_simple 2 = [2]"
proof -
  have a: "criba_eratostenes_segmentada 2 = []" by code_simp
  have b: "criba_eratostenes_simple 2 = [2]" by code_simp
  from a b show ?thesis by simp
qed

lemma intentar_cargar_casos:
  "intentar_cargar Ausente = Inl ErrorDeLectura"
  "intentar_cargar Ilegible = Inl ErrorDeLectura"
  "intentar_cargar (Documento (Objeto kvs)) =
     (case map_of kvs ''ultimo_n_verificado'' of
        None \<Rightarrow> Inl KeyError
      | Some x \<Rightarrow> (case formato_miles x of Inl e \<Rightarrow> Inl e | Inr _ \<Rightarrow> Inr (Objeto kvs)))"
  "(\<And>kvs. v \<noteq> Objeto kvs) \<Longrightarrow> intentar_cargar (Documento v) = Inl TypeError"
  by (auto simp: intentar_cargar_def leer_json_def indexar_def split: option.splits valor.splits)

text \<open>
  Claim C8, as stated, at a document that is not a Progress: the JSON object
  \<^verbatim>\<open>{"ultimo_n_verificado": 998}\<close> has none of the other five entries, and
  \<^verbatim>\<open>cargar_progreso\<close> returns it as it is, not the default dictionary.
\<close>

theorem cargar_progreso_no_valida_counterexample:
  "progreso_de_valor (Objeto [(''ultimo_n_verificado'', Entero 998)]) = None
   \<and> cargar_progreso (CONFIG 1) ''2025-11-01T00:00:00''
        (Documento (Objeto [(''ultimo_n_verificado'', Entero 998)]))
       = Inr (Objeto [(''ultimo_n_verificado'', Entero 998)])
   \<and> cargar_progreso (CONFIG 1) ''2025-11-01T00:00:00''
        (Documento (Objeto [(''ultimo_n_verificado'', Entero 998)]))
       \<noteq> Inr (progreso_inicial (CONFIG 1) ''2025-11-01T00:00:00'')"
  by (simp add: progreso_de_valor_def cargar_progreso_def intentar_cargar_casos
      formato_miles_def progreso_inicial_def)

text \<open>
  Claim C8, amended. \<^verbatim>\<open>cargar_progreso\<close> never raises. It returns the default
  dictionary (\<open>ultimo_n_verificado = n_inicial - 2\<close>, zero totals, no counterexamples)
  when the file is absent, when it cannot be opened or parsed, when the document is not
  a JSON object, when the object has no entry \<open>ultimo_n_verificado\<close>, and when that
  entry is null, a string, a list or an object. When that entry is a number (or a
  boolean) the document is returned as it is, whatever else it holds.
\<close>

theorem cargar_progreso_por_defecto:
  "(\<exists>v. cargar_progreso cfg ahora a = Inr v)
   \<and> (a = Ausente \<or> a = Ilegible \<longrightarrow>
        cargar_progreso cfg ahora a = Inr (progreso_inicial cfg ahora))
   \<and> (\<forall>v. a = Documento v \<and> (\<forall>kvs. v \<noteq> Objeto kvs) \<longrightarrow>
        cargar_progreso cfg ahora a = Inr (progreso_inicial cfg ahora))
   \<and> (\<forall>kvs. a = Documento (Objeto kvs) \<and> map_of kvs ''ultimo_n_verificado'' = None \<longrightarrow>
        cargar_progreso cfg ahora a = Inr (progreso_inicial cfg ahora))
   \<and> (\<forall>kvs x. a = Documento (Objeto kvs) \<and> map_of kvs ''ultimo_n_verificado'' = Some x
          \<and> (x = Nulo \<or> (\<exists>s. x = Cadena s) \<or> (\<exists>vs. x = Lista vs) \<or> (\<exists>ws. x = Objeto ws)) \<longrightarrow>
        cargar_progreso cfg ahora a = Inr (progreso_inicial cfg ahora))
   \<and> (\<forall>kvs x. a = Documento (Objeto kvs) \<and> map_of kvs ''ultimo_n_verificado'' = Some x
          \<and> ((\<exists>i. x = Entero i) \<or> (\<exists>r. x = Flotante r) \<or> (\<exists>b. x = Booleano b)) \<longrightarrow>
        cargar_progreso cfg ahora a = Inr (Objeto kvs))
   \<and> progreso_inicial cfg ahora =
        Objeto [(''ultimo_n_verificado'', Entero (n_inicial cfg - 2)),
                (''total_verificados'', Entero 0), (''total_cumple'', Entero 0),
                (''contraejemplos'', Lista []), (''tiempo_total'', Entero 0),
                (''inicio_sesion'', Cadena ahora)]"
proof (intro conjI allI impI)
  show "\<exists>v. cargar_progreso cfg ahora a = Inr v"
    by (simp add: cargar_progreso_def split: sum.splits)
next
  assume "a = Ausente \<or> a = Ilegible"
  then show "cargar_progreso cfg ahora a = Inr (progreso_inicial cfg ahora)"
    by (auto simp: cargar_progreso_def intentar_cargar_casos)
next
  fix v assume "a = Documento v \<and> (\<forall>kvs. v \<noteq> Objeto kvs)"
  then show "cargar_progreso cfg ahora a = Inr (progreso_inicial cfg ahora)"
    by (simp add: cargar_progreso_def intentar_cargar_casos(4))
next
  fix kvs assume "a = Documento (Objeto kvs) \<and> map_of kvs ''ultimo_n_verificado'' = None"
  then show "cargar_progreso cfg ahora a = Inr (progreso_inicial cfg ahora)"
    by (simp add: cargar_progreso_def intentar_cargar_casos(3))
next
  fix kvs x
  assume "a = Documento (Objeto kvs) \<and> map_of kvs ''ultimo_n_verificado'' = Some x
          \<and> (x = Nulo \<or> (\<exists>s. x = Cadena s) \<or> (\<exists>vs. x = Lista vs) \<or> (\<exists>ws. x = Objeto ws))"
  then show "cargar_progreso cfg ahora a = Inr (progreso_inicial cfg ahora)"
    by (auto simp: cargar_progreso_def intentar_cargar_casos(3) formato_miles_def)
next
  fix kvs x
  assume "a = Documento (Objeto kvs) \<and> map_of kvs ''ultimo_n_verificado'' = Some x
          \<and> ((\<exists>i. x = Entero i) \<or> (\<exists>r. x = Flotante r) \<or> (\<exists>b. x = Booleano b))"
  then show "cargar_progreso cfg ahora a = Inr (Objeto kvs)"
    by (auto simp: cargar_progreso_def intentar_cargar_casos(3) formato_miles_def)
next
  show "progreso_inicial cfg ahora =
        Objeto [(''ultimo_n_verificado'', Entero (n_inicial cfg - 2)),
                (''total_verificados'', Entero 0), (''total_cumple'', Entero 0),
                (''contraejemplos'', Lista []), (''tiempo_total'', Entero 0),
                (''inicio_sesion'', Cadena ahora)]"
    by (simp add: progreso_inicial_def)
qed

theorem cargar_progreso_por_defecto_witness:
  "cargar_progreso (CONFIG 1) ''2025-11-01T00:00:00'' Ausente
     = Inr (progreso_inicial (CONFIG 1) ''2025-11-01T00:00:00'')
   \<and> cargar_progreso (CONFIG 1) ''2025-11-01T00:00:00'' (Documento (Lista []))
     = Inr (progreso_inicial (CONFIG 1) ''2025-11-01T00:00:00'')
   \<and> cargar_progreso (CONFIG 1) ''2025-11-01T00:00:00'' (Documento (Objeto []))
     = Inr (progreso_inicial (CONFIG 1) ''2025-11-01T00:00:00'')
   \<and> cargar_progreso (CONFIG 1) ''2025-11-01T00:00:00''
        (Documento (Objeto [(''ultimo_n_verificado'', Cadena ''998'')]))
     = Inr (progreso_inicial (CONFIG 1) ''2025-11-01T00:00:00'')
   \<and> cargar_progreso (CONFIG 1) ''2025-11-01T00:00:00''
        (Documento (Objeto [(''ultimo_n_verificado'', Entero 998)]))
     = Inr (Objeto [(''ultimo_n_verificado'', Entero 998)])"
proof -
  note t = cargar_progreso_por_defecto[of "CONFIG 1" "''2025-11-01T00:00:00''"]
  have 1: "cargar_progreso (CONFIG 1) ''2025-11-01T00:00:00'' Ausente
     = Inr (progreso_inicial (CONFIG 1) ''2025-11-01T00:00:00'')"
    using t[of Ausente] by simp
  have 2: "cargar_progreso (CONFIG 1) ''2025-11-01T00:00:00'' (Documento (Lista []))
     = Inr (progreso_inicial (CONFIG 1) ''2025-11-01T00:00:00'')"
    using t[of "Documento (Lista [])"] by simp
  have 3: "cargar_progreso (CONFIG 1) ''2025-11-01T00:00:00'' (Documento (Objeto []))
     = Inr (progreso_inicial (CONFIG 1) ''2025-11-01T00:00:00'')"
    using t[of "Documento (Objeto [])"] by simp
  have 4: "cargar_progreso (CONFIG 1) ''2025-11-01T00:00:00''
        (Documento (Objeto [(''ultimo_n_verificado'', Cadena ''998'')]))
     = Inr (progreso_inicial (CONFIG 1) ''2025-11-01T00:00:00'')"
    using t[of "Documento (Objeto [(''ultimo_n_verificado'', Cadena ''998'')])"] by simp
  have 5: "cargar_progreso (CONFIG 1) ''2025-11-01T00:00:00''
        (Documento (Objeto [(''ultimo_n_verificado'', Entero 998)]))
     = Inr (Objeto [(''ultimo_n_verificado'', Entero 998)])"
    using t[of "Documento (Objeto [(''ultimo_n_verificado'', Entero 998)])"] by simp
  from 1 2 3 4 5 show ?thesis by blast
qed

section \<open>Determinism of the batch verifier\<close>

lemma tiempo_verificar:
  "tiempo (fst (verificar_goldbach_rango cache args (t0, t1))) = t1 - t0"
  unfolding verificar_goldbach_rango_def by (simp add: Let_def split: prod.splits)

lemma cache_tras_verificar:
  "snd (verificar_goldbach_rango cache (a, b, v) lecturas) = snd (obtener_primos_hasta cache b)"
  unfolding verificar_goldbach_rango_def by (simp add: Let_def split: prod.splits)

lemma obtener_primos_consistente:
  assumes "\<forall>n par. cache n = Some par \<longrightarrow>
             par = (criba_eratostenes_segmentada n, set (criba_eratostenes_segmentada n))"
  shows "fst (obtener_primos_hasta cache b) =
           (criba_eratostenes_segmentada b, set (criba_eratostenes_segmentada b))"
    and "snd (obtener_primos_hasta cache b) =
           (if b \<in> dom cache then cache
            else cache(b \<mapsto> (criba_eratostenes_segmentada b, set (criba_eratostenes_segmentada b))))"
  using assms by (auto simp: obtener_primos_hasta_def Let_def split: option.splits)

lemma verificar_con_cache_consistente:
  assumes "\<forall>n par. cache n = Some par \<longrightarrow>
             par = (criba_eratostenes_segmentada n, set (criba_eratostenes_segmentada n))"
  shows "fst (verificar_goldbach_rango cache (a, b, v) lecturas) =
           (fold (verificar_numero (criba_eratostenes_segmentada b)
                    (set (criba_eratostenes_segmentada b)))
              (numeros_verificados (a, b, v))
              \<lparr>rango = (asegurar_par a, b), verificados = 0, cumple = 0, no_cumple = [],
               min_representaciones = None, max_representaciones = 0, tiempo = 0\<rparr>)
           \<lparr>tiempo := snd lecturas - fst lecturas\<rparr>"
proof -
  obtain ps S c' where o: "obtener_primos_hasta cache b = ((ps, S), c')"
    by (metis prod.exhaust)
  with obtener_primos_consistente(1)[OF assms, of b]
  have "ps = criba_eratostenes_segmentada b" "S = set (criba_eratostenes_segmentada b)" by auto
  with o show ?thesis unfolding verificar_goldbach_rango_def by (simp add: Let_def)
qed

text \<open>
  Claim C9, as stated, fails twice on one batch: the result carries the elapsed wall
  time, so two runs of the batch \<open>(6, 6)\<close> that read the clock differently return
  different results; and the run leaves an entry in the prime cache of its process,
  which was empty before.
\<close>

theorem verificar_no_es_pura_counterexample:
  "fst (verificar_goldbach_rango Map.empty (6, 6, False) (0, 1))
     \<noteq> fst (verificar_goldbach_rango Map.empty (6, 6, False) (0, 2))
   \<and> snd (verificar_goldbach_rango Map.empty (6, 6, False) (0, 1)) \<noteq> Map.empty"
proof
  have ne: "tiempo (fst (verificar_goldbach_rango Map.empty (6, 6, False) (0, 1)))
          \<noteq> tiempo (fst (verificar_goldbach_rango Map.empty (6, 6, False) (0, 2)))"
    unfolding tiempo_verificar by simp
  show "fst (verificar_goldbach_rango Map.empty (6, 6, False) (0, 1))
     \<noteq> fst (verificar_goldbach_rango Map.empty (6, 6, False) (0, 2))"
  proof
    assume "fst (verificar_goldbach_rango Map.empty (6, 6, False) (0, 1))
       = fst (verificar_goldbach_rango Map.empty (6, 6, False) (0, 2))"
    then have "tiempo (fst (verificar_goldbach_rango Map.empty (6, 6, False) (0, 1)))
          = tiempo (fst (verificar_goldbach_rango Map.empty (6, 6, False) (0, 2)))"
      by (rule arg_cong)
    with ne show False by contradiction
  qed
next
  have "snd (verificar_goldbach_rango Map.empty (6, 6, False) (0, 1)) 6 \<noteq> None"
    unfolding cache_tras_verificar by (simp add: obtener_primos_hasta_def Let_def)
  then show "snd (verificar_goldbach_rango Map.empty (6, 6, False) (0, 1)) \<noteq> Map.empty"
    by auto
qed

text \<open>
  Claim C9, amended. In a process whose prime cache holds only what
  \<^verbatim>\<open>obtener_primos_hasta\<close> put there, the result of a batch, apart from its field
  \<^verbatim>\<open>tiempo\<close>, is a function of \<open>(n_inicio, n_fin)\<close> alone: it does not depend on the
  cache nor on the clock, and the prime set is the sieve of \<open>n_fin\<close>. The field
  \<^verbatim>\<open>tiempo\<close> is the difference of the two clock readings. The only effect besides the
  result is the entry for \<open>n_fin\<close> in the cache, added when it is missing, and the
  cache still holds only sieve results afterwards.
\<close>

theorem verificar_determinista_salvo_tiempo:
  assumes "\<forall>n par. cache n = Some par \<longrightarrow>
             par = (criba_eratostenes_segmentada n, set (criba_eratostenes_segmentada n))"
      and "\<forall>n par. cache' n = Some par \<longrightarrow>
             par = (criba_eratostenes_segmentada n, set (criba_eratostenes_segmentada n))"
  shows "(fst (verificar_goldbach_rango cache (a, b, v) (t0, t1)))\<lparr>tiempo := 0\<rparr>
           = (fst (verificar_goldbach_rango cache' (a, b, v) (t0', t1')))\<lparr>tiempo := 0\<rparr>
       \<and> tiempo (fst (verificar_goldbach_rango cache (a, b, v) (t0, t1))) = t1 - t0
       \<and> snd (verificar_goldbach_rango cache (a, b, v) (t0, t1))
           = (if b \<in> dom cache then cache
              else cache(b \<mapsto> (criba_eratostenes_segmentada b,
                                set (criba_eratostenes_segmentada b))))
       \<and> (\<forall>n par. snd (verificar_goldbach_rango cache (a, b, v) (t0, t1)) n = Some par \<longrightarrow>
             par = (criba_eratostenes_segmentada n, set (criba_eratostenes_segmentada n)))"
proof (intro conjI)
  show "(fst (verificar_goldbach_rango cache (a, b, v) (t0, t1)))\<lparr>tiempo := 0\<rparr>
           = (fst (verificar_goldbach_rango cache' (a, b, v) (t0', t1')))\<lparr>tiempo := 0\<rparr>"
    unfolding verificar_con_cache_consistente[OF assms(1)]
      verificar_con_cache_consistente[OF assms(2)] by simp
next
  show "tiempo (fst (verificar_goldbach_rango cache (a, b, v) (t0, t1))) = t1 - t0"
    by (rule tiempo_verificar)
next
  show c: "snd (verificar_goldbach_rango cache (a, b, v) (t0, t1))
           = (if b \<in> dom cache then cache
              else cache(b \<mapsto> (criba_eratostenes_segmentada b,
                                set (criba_eratostenes_segmentada b))))"
    unfolding cache_tras_verificar by (rule obtener_primos_consistente(2)[OF assms(1)])
  show "\<forall>n par. snd (verificar_goldbach_rango cache (a, b, v) (t0, t1)) n = Some par \<longrightarrow>
             par = (criba_eratostenes_segmentada n, set (criba_eratostenes_segmentada n))"
    unfolding c using assms(1) by (auto split: if_splits)
qed

theorem verificar_determinista_salvo_tiempo_witness:
  "(fst (verificar_goldbach_rango Map.empty (6, 6, False) (0, 1)))\<lparr>tiempo := 0\<rparr>
     = (fst (verificar_goldbach_rango
               [6 \<mapsto> (criba_eratostenes_segmentada 6, set (criba_eratostenes_segmentada 6))]
               (6, 6, False) (5, 9)))\<lparr>tiempo := 0\<rparr>
   \<and> tiempo (fst (verificar_goldbach_rango Map.empty (6, 6, False) (0, 1))) = 1
   \<and> snd (verificar_goldbach_rango Map.empty (6, 6, False) (0, 1))
       = [6 \<mapsto> (criba_eratostenes_segmentada 6, set (criba_eratostenes_segmentada 6))]"
proof -
  have h1: "\<forall>n par. (Map.empty :: cache) n = Some par \<longrightarrow>
             par = (criba_eratostenes_segmentada n, set (criba_eratostenes_segmentada n))"
    by simp
  have h2: "\<forall>n par. [6 \<mapsto> (criba_eratostenes_segmentada 6, set (criba_eratostenes_segmentada 6))] n
               = Some par \<longrightarrow>
             par = (criba_eratostenes_segmentada n, set (criba_eratostenes_segmentada n))"
    by (simp split: if_splits)
  note t = verificar_determinista_salvo_tiempo[OF h1 h2, of 6 6 False 0 1 5 9]
  note t1 = t[THEN conjunct1]
  note t2 = t[THEN conjunct2, THEN conjunct1]
  note t3 = t[THEN conjunct2, THEN conjunct2, THEN conjunct1]
  have t3': "snd (verificar_goldbach_rango Map.empty (6, 6, False) (0, 1))
       = [6 \<mapsto> (criba_eratostenes_segmentada 6, set (criba_eratostenes_segmentada 6))]"
    using t3 by simp
  have t2': "tiempo (fst (verificar_goldbach_rango Map.empty (6, 6, False) (0, 1))) = 1"
    using t2 by simp
  show ?thesis by (intro conjI) (rule t1, rule t2', rule t3')
qed

section \<open>One round of the driver loop\<close>

lemma preparar_batches_avanza:
  "0 \<le> tamano_batch cfg \<Longrightarrow> n \<le> snd (preparar_batches cfg k n)"
proof (induction k arbitrary: n)
  case 0
  show ?case by simp
next
  case (Suc k)
  show ?case
  proof (cases "n > n_final cfg")
    case True
    then show ?thesis by simp
  next
    case False
    define fin where "fin = min (n + tamano_batch cfg - 1) (n_final cfg)"
    have "n \<le> fin + 2" using Suc.prems False by (simp add: fin_def min_def)
    also have "fin + 2 \<le> snd (preparar_batches cfg k (fin + 2))" by (rule Suc.IH[OF Suc.prems])
    finally show ?thesis using False by (simp add: fin_def[symmetric] Let_def case_prod_beta)
  qed
qed

lemma preparar_batches_lotes:
  assumes "0 \<le> tamano_batch cfg"
  shows "(a, b, v) \<in> set (fst (preparar_batches cfg k n)) \<Longrightarrow>
           n \<le> a \<and> a \<le> n_final cfg \<and> b = min (a + tamano_batch cfg - 1) (n_final cfg) \<and> \<not> v"
proof (induction k arbitrary: n)
  case 0
  then show ?case by simp
next
  case (Suc k)
  show ?case
  proof (cases "n > n_final cfg")
    case True
    with Suc.prems show ?thesis by simp
  next
    case False
    define fin where "fin = min (n + tamano_batch cfg - 1) (n_final cfg)"
    have f: "fst (preparar_batches cfg (Suc k) n) =
               (n, fin, False) # fst (preparar_batches cfg k (fin + 2))"
      using False by (simp add: fin_def[symmetric] Let_def case_prod_beta)
    have nf: "n \<le> fin + 2" using assms False by (simp add: fin_def min_def)
    have "(a, b, v) = (n, fin, False) \<or> (a, b, v) \<in> set (fst (preparar_batches cfg k (fin + 2)))"
      using Suc.prems unfolding f by simp
    then show ?thesis
    proof (elim disjE)
      assume "(a, b, v) = (n, fin, False)"
      with False show ?thesis by (simp add: fin_def)
    next
      assume "(a, b, v) \<in> set (fst (preparar_batches cfg k (fin + 2)))"
      from Suc.IH[OF this] nf show ?thesis by simp
    qed
  qed
qed

lemma preparar_batches_primero:
  assumes "0 \<le> tamano_batch cfg" and "n \<le> n_final cfg"
  shows "\<exists>resto. fst (preparar_batches cfg (Suc k) n) =
            (n, min (n + tamano_batch cfg - 1) (n_final cfg), False) # resto
          \<and> (\<forall>(a, b, v) \<in> set resto. min (n + tamano_batch cfg - 1) (n_final cfg) + 2 \<le> a)
          \<and> min (n + tamano_batch cfg - 1) (n_final cfg) + 2 \<le> snd (preparar_batches cfg (Suc k) n)
          \<and> n < snd (preparar_batches cfg (Suc k) n)"
proof -
  define fin where "fin = min (n + tamano_batch cfg - 1) (n_final cfg)"
  have f: "fst (preparar_batches cfg (Suc k) n) =
             (n, fin, False) # fst (preparar_batches cfg k (fin + 2))"
    and s: "snd (preparar_batches cfg (Suc k) n) = snd (preparar_batches cfg k (fin + 2))"
    using assms(2) by (simp_all add: fin_def[symmetric] Let_def case_prod_beta)
  have nf: "n < fin + 2" using assms by (simp add: fin_def min_def)
  have a: "fin + 2 \<le> snd (preparar_batches cfg k (fin + 2))"
    by (rule preparar_batches_avanza[OF assms(1)])
  have "\<forall>(a, b, v) \<in> set (fst (preparar_batches cfg k (fin + 2))). fin + 2 \<le> a"
    using preparar_batches_lotes[OF assms(1), of _ _ _ k "fin + 2"] by auto
  with f s nf a show ?thesis unfolding fin_def[symmetric] by auto
qed

lemma bucle_fin:
  "\<not> n_actual st \<le> n_final cfg \<Longrightarrow>
     bucle cfg ent st = Some \<lparr>desenlace = Completada, progreso_final = progreso_acum st,
                              guardados = guardados_hasta st @ [progreso_acum st],
                              lotes = lotes_hasta st\<rparr>"
  by (subst bucle.simps) simp

lemma bucle_interrumpido:
  "n_actual st \<le> n_final cfg \<Longrightarrow>
   fst (preparar_batches cfg (num_cores cfg) (n_actual st)) \<noteq> [] \<Longrightarrow>
   interrupcion ent = Some (ronda st) \<Longrightarrow>
     bucle cfg ent st = Some \<lparr>desenlace = Interrumpida, progreso_final = progreso_acum st,
                              guardados = guardados_hasta st @ [progreso_acum st],
                              lotes = lotes_hasta st\<rparr>"
  by (subst bucle.simps) (simp add: case_prod_beta)

lemma bucle_ronda:
  assumes "n_actual st \<le> n_final cfg"
    and "fst (preparar_batches cfg (num_cores cfg) (n_actual st)) \<noteq> []"
    and "interrupcion ent \<noteq> Some (ronda st)"
  shows "bucle cfg ent st =
     bucle cfg ent
       \<lparr>n_actual = snd (preparar_batches cfg (num_cores cfg) (n_actual st)),
        progreso_acum = fold consolidar
          (pool_map ent (fst (preparar_batches cfg (num_cores cfg) (n_actual st))))
          (progreso_acum st),
        ultimo_guardado =
          (if reloj ent (Suc (ronda st)) - ultimo_guardado st \<ge> intervalo_guardado cfg
           then reloj ent (Suc (ronda st)) else ultimo_guardado st),
        ronda = Suc (ronda st),
        guardados_hasta =
          (if reloj ent (Suc (ronda st)) - ultimo_guardado st \<ge> intervalo_guardado cfg
           then guardados_hasta st @
                [fold consolidar
                   (pool_map ent (fst (preparar_batches cfg (num_cores cfg) (n_actual st))))
                   (progreso_acum st)]
           else guardados_hasta st),
        lotes_hasta = lotes_hasta st @ fst (preparar_batches cfg (num_cores cfg) (n_actual st))\<rparr>"
  using assms by (subst bucle.simps) (simp add: Let_def case_prod_beta)

section \<open>The driver loop returns\<close>

lemma bucle_termina:
  assumes tb: "0 \<le> tamano_batch cfg" and nc: "0 < num_cores cfg"
  shows "\<exists>sal resto. bucle cfg ent st = Some sal \<and> lotes sal = lotes_hasta st @ resto
           \<and> (\<forall>(a, b, v) \<in> set resto. n_actual st \<le> a \<and> a \<le> n_final cfg
                  \<and> b = min (a + tamano_batch cfg - 1) (n_final cfg))
           \<and> (n_actual st \<le> n_final cfg \<and> interrupcion ent \<noteq> Some (ronda st) \<longrightarrow>
                 resto \<noteq> []
                 \<and> hd resto = (n_actual st,
                               min (n_actual st + tamano_batch cfg - 1) (n_final cfg), False)
                 \<and> (\<forall>(a, b, v) \<in> set (tl resto).
                        min (n_actual st + tamano_batch cfg - 1) (n_final cfg) + 2 \<le> a))"
proof (induction "nat (n_final cfg - n_actual st + 1)" arbitrary: st rule: less_induct)
  case less
  show ?case
  proof (cases "n_actual st \<le> n_final cfg")
    case False
    have "lotes_hasta st = lotes_hasta st @ []" by simp
    with bucle_fin[OF False, of ent] False show ?thesis
      by (intro exI[of _ "\<lparr>desenlace = Completada, progreso_final = progreso_acum st,
                              guardados = guardados_hasta st @ [progreso_acum st],
                              lotes = lotes_hasta st\<rparr>"] exI[of _ "[]"]) simp
  next
    case True
    obtain k where k: "num_cores cfg = Suc k" using nc by (cases "num_cores cfg") auto
    define fin where "fin = min (n_actual st + tamano_batch cfg - 1) (n_final cfg)"
    define bs where "bs = fst (preparar_batches cfg (num_cores cfg) (n_actual st))"
    define n' where "n' = snd (preparar_batches cfg (num_cores cfg) (n_actual st))"
    from preparar_batches_primero[OF tb True, of k]
    obtain r0 where r0: "bs = (n_actual st, fin, False) # r0"
      "\<forall>(a, b, v) \<in> set r0. fin + 2 \<le> a" "fin + 2 \<le> n'" "n_actual st < n'"
      unfolding bs_def n'_def fin_def k by blast
    have bs_ne: "fst (preparar_batches cfg (num_cores cfg) (n_actual st)) \<noteq> []"
      using r0(1) unfolding bs_def by simp
    have bs_all: "\<forall>(a, b, v) \<in> set bs. n_actual st \<le> a \<and> a \<le> n_final cfg
                  \<and> b = min (a + tamano_batch cfg - 1) (n_final cfg)"
      using preparar_batches_lotes[OF tb, of _ _ _ "num_cores cfg" "n_actual st"]
      unfolding bs_def by auto
    show ?thesis
    proof (cases "interrupcion ent = Some (ronda st)")
      case i: True
      from bucle_interrumpido[OF True bs_ne i] i show ?thesis
        by (intro exI[of _ "\<lparr>desenlace = Interrumpida, progreso_final = progreso_acum st,
                              guardados = guardados_hasta st @ [progreso_acum st],
                              lotes = lotes_hasta st\<rparr>"] exI[of _ "[]"]) simp
    next
      case i: False
      define st' where "st' =
        \<lparr>n_actual = n',
         progreso_acum = fold consolidar (pool_map ent bs) (progreso_acum st),
         ultimo_guardado =
           (if reloj ent (Suc (ronda st)) - ultimo_guardado st \<ge> intervalo_guardado cfg
            then reloj ent (Suc (ronda st)) else ultimo_guardado st),
         ronda = Suc (ronda st),
         guardados_hasta =
           (if reloj ent (Suc (ronda st)) - ultimo_guardado st \<ge> intervalo_guardado cfg
            then guardados_hasta st @ [fold consolidar (pool_map ent bs) (progreso_acum st)]
            else guardados_hasta st),
         lotes_hasta = lotes_hasta st @ bs\<rparr>"
      have e: "bucle cfg ent st = bucle cfg ent st'"
        unfolding st'_def bs_def n'_def by (rule bucle_ronda[OF True bs_ne i])
      have n: "n_actual st' = n'" and l: "lotes_hasta st' = lotes_hasta st @ bs"
        by (simp_all add: st'_def)
      have "nat (n_final cfg - n_actual st' + 1) < nat (n_final cfg - n_actual st + 1)"
        unfolding n using r0(4) True by simp
      from less[OF this] obtain sal resto where
        s: "bucle cfg ent st' = Some sal" "lotes sal = lotes_hasta st' @ resto"
           "\<forall>(a, b, v) \<in> set resto. n_actual st' \<le> a \<and> a \<le> n_final cfg
                  \<and> b = min (a + tamano_batch cfg - 1) (n_final cfg)"
        by blast
      have 1: "lotes sal = lotes_hasta st @ (bs @ resto)" using s(2) l by simp
      have 2: "\<forall>(a, b, v) \<in> set (bs @ resto). n_actual st \<le> a \<and> a \<le> n_final cfg
                  \<and> b = min (a + tamano_batch cfg - 1) (n_final cfg)"
        using bs_all s(3) r0(4) unfolding n by auto
      have 3: "bs @ resto \<noteq> []" "hd (bs @ resto) = (n_actual st, fin, False)"
        "tl (bs @ resto) = r0 @ resto"
        using r0(1) by simp_all
      have 4: "\<forall>(a, b, v) \<in> set (r0 @ resto). fin + 2 \<le> a"
        using r0(2,3) s(3) unfolding n by auto
      have 5: "bucle cfg ent st = Some sal" using e s(1) by simp
      have 6: "\<forall>(a, b, v) \<in> set (tl (bs @ resto)). fin + 2 \<le> a"
        unfolding 3(3) by (rule 4)
      show ?thesis
        unfolding fin_def[symmetric]
        by (intro exI[of _ sal] exI[of _ "bs @ resto"] conjI impI)
          (rule 5, rule 1, rule 2, rule 3(1), rule 3(2), rule 6)
    qed
  qed
qed

section \<open>Resuming from the checkpoint\<close>

lemma numeros_verificados_cabeza:
  assumes "even a" and "a \<le> b"
  shows "\<exists>ns. numeros_verificados (a, b, v) = a # ns"
proof -
  have "asegurar_par a = a" using assms(1) by (rule asegurar_par_de_par)
  then show ?thesis
    unfolding numeros_verificados_def using assms(2)
    by (subst range_int.simps) simp
qed

text \<open>
  Claim C10. If the resume point, \<open>ultimo_n_verificado + 2\<close> rounded up to even, is at
  or beyond \<open>n_final\<close>, the driver dispatches no batch, saves nothing and returns the
  loaded Progress unchanged; no number is verified, so when the resume point equals
  \<open>n_final\<close> exactly, \<open>n_final\<close> itself is not verified.
\<close>

theorem ya_completada_no_despacha:
  assumes "asegurar_par (ultimo_n_verificado p + 2) \<ge> n_final cfg"
  shows "verificacion_masiva_goldbach cfg ent p
           = Some \<lparr>desenlace = YaCompletada, progreso_final = p, guardados = [], lotes = []\<rparr>
       \<and> (\<forall>sal. verificacion_masiva_goldbach cfg ent p = Some sal \<longrightarrow>
             progreso_final sal = p \<and> lotes sal = []
             \<and> n_final cfg \<notin> set (concat (map numeros_verificados (lotes sal))))"
  using assms by (simp add: verificacion_masiva_goldbach_def Let_def)

theorem ya_completada_no_despacha_witness:
  "asegurar_par (ultimo_n_verificado
       \<lparr>ultimo_n_verificado = 999998, total_verificados = 499997, total_cumple = 499997,
        contraejemplos = [], tiempo_total = 0, inicio_sesion = ''''\<rparr> + 2) = n_final (CONFIG 1)
   \<and> verificacion_masiva_goldbach (CONFIG 1)
        \<lparr>reloj = (\<lambda>k. 0), cronometro = (\<lambda>b. (0, 0)), interrupcion = None\<rparr>
        \<lparr>ultimo_n_verificado = 999998, total_verificados = 499997, total_cumple = 499997,
         contraejemplos = [], tiempo_total = 0, inicio_sesion = ''''\<rparr>
      = Some \<lparr>desenlace = YaCompletada,
              progreso_final =
                \<lparr>ultimo_n_verificado = 999998, total_verificados = 499997,
                 total_cumple = 499997, contraejemplos = [], tiempo_total = 0,
                 inicio_sesion = ''''\<rparr>,
              guardados = [], lotes = []\<rparr>"
proof -
  have h: "asegurar_par (ultimo_n_verificado
       \<lparr>ultimo_n_verificado = 999998, total_verificados = 499997, total_cumple = 499997,
        contraejemplos = [], tiempo_total = 0, inicio_sesion = ''''\<rparr> + 2) = n_final (CONFIG 1)"
    by (simp add: asegurar_par_def CONFIG_def)
  then have "asegurar_par (ultimo_n_verificado
       \<lparr>ultimo_n_verificado = 999998, total_verificados = 499997, total_cumple = 499997,
        contraejemplos = [], tiempo_total = 0, inicio_sesion = ''''\<rparr> + 2) \<ge> n_final (CONFIG 1)"
    by simp
  from ya_completada_no_despacha[OF this, THEN conjunct1] h show ?thesis by blast
qed

text \<open>
  Claim C7. A fresh invocation whose resume point \<open>n0\<close>, \<open>ultimo_n_verificado + 2\<close>
  rounded up to even, lies below \<open>n_final\<close> returns, and unless it is interrupted
  before its first round ends, the first batch it dispatches starts at \<open>n0\<close>, the first
  number verified is \<open>n0\<close>, and nothing below \<open>n0\<close> is verified. With
  \<open>ultimo_n_verificado = 998\<close> the first number verified is 1000.
\<close>

theorem reanuda_en_el_par_siguiente:
  assumes "asegurar_par (ultimo_n_verificado p + 2) < n_final cfg"
    and "0 < num_cores cfg" and "0 < tamano_batch cfg" and "interrupcion ent \<noteq> Some 0"
  shows "\<exists>sal. verificacion_masiva_goldbach cfg ent p = Some sal
           \<and> lotes sal \<noteq> []
           \<and> hd (lotes sal) =
               (asegurar_par (ultimo_n_verificado p + 2),
                min (asegurar_par (ultimo_n_verificado p + 2) + tamano_batch cfg - 1) (n_final cfg),
                False)
           \<and> hd (concat (map numeros_verificados (lotes sal)))
               = asegurar_par (ultimo_n_verificado p + 2)
           \<and> (\<forall>n \<in> set (concat (map numeros_verificados (lotes sal))).
                 asegurar_par (ultimo_n_verificado p + 2) \<le> n)
           \<and> (ultimo_n_verificado p = 998 \<longrightarrow>
                 hd (concat (map numeros_verificados (lotes sal))) = 1000)"
proof -
  define n0 where "n0 = asegurar_par (ultimo_n_verificado p + 2)"
  define fin where "fin = min (n0 + tamano_batch cfg - 1) (n_final cfg)"
  define st where "st = \<lparr>n_actual = n0, progreso_acum = p, ultimo_guardado = reloj ent 0,
                 ronda = 0, guardados_hasta = [], lotes_hasta = []\<rparr>"
  have v: "verificacion_masiva_goldbach cfg ent p = bucle cfg ent st"
    using assms(1,2) by (simp add: verificacion_masiva_goldbach_def Let_def n0_def st_def)
  have tb: "0 \<le> tamano_batch cfg" using assms(3) by simp
  have pre: "n_actual st \<le> n_final cfg \<and> interrupcion ent \<noteq> Some (ronda st)"
    using assms(1,4) by (simp add: st_def n0_def)
  have st_n: "n_actual st = n0" and st_l: "lotes_hasta st = []" by (simp_all add: st_def)
  from bucle_termina[OF tb assms(2), of ent st]
  obtain sal resto where s0: "bucle cfg ent st = Some sal" "lotes sal = lotes_hasta st @ resto"
    "\<forall>(a, b, v) \<in> set resto. n_actual st \<le> a \<and> a \<le> n_final cfg
          \<and> b = min (a + tamano_batch cfg - 1) (n_final cfg)"
    "n_actual st \<le> n_final cfg \<and> interrupcion ent \<noteq> Some (ronda st) \<longrightarrow>
       resto \<noteq> []
       \<and> hd resto = (n_actual st, min (n_actual st + tamano_batch cfg - 1) (n_final cfg), False)
       \<and> (\<forall>(a, b, v) \<in> set (tl resto).
              min (n_actual st + tamano_batch cfg - 1) (n_final cfg) + 2 \<le> a)"
    by blast
  have s: "bucle cfg ent st = Some sal" "lotes sal = resto"
    "\<forall>(a, b, v) \<in> set resto. n0 \<le> a" "resto \<noteq> []" "hd resto = (n0, fin, False)"
    using s0 pre unfolding st_n st_l fin_def by auto
  obtain r where r: "lotes sal = (n0, fin, False) # r"
    using s(2,4,5) by (cases resto) auto
  have par: "even n0" unfolding n0_def by (rule asegurar_par_par)
  have "n0 \<le> fin" using assms(1,3) by (simp add: fin_def n0_def)
  from numeros_verificados_cabeza[OF par this, of False]
  obtain ns where ns: "numeros_verificados (n0, fin, False) = n0 # ns" by blast
  have h: "hd (concat (map numeros_verificados (lotes sal))) = n0"
    unfolding r by (simp add: ns)
  have low: "\<forall>n \<in> set (concat (map numeros_verificados (lotes sal))). n0 \<le> n"
  proof
    fix n assume "n \<in> set (concat (map numeros_verificados (lotes sal)))"
    then obtain a b w where ab: "(a, b, w) \<in> set (lotes sal)" "n \<in> set (numeros_verificados (a, b, w))"
      by auto
    from ab(1) s(2,3) have "n0 \<le> a" by auto
    with ab(2) show "n0 \<le> n" by (simp add: set_numeros_verificados)
  qed
  have m: "ultimo_n_verificado p = 998 \<longrightarrow> n0 = 1000"
    by (simp add: n0_def asegurar_par_def)
  have l1: "lotes sal \<noteq> []" and l2: "hd (lotes sal) = (n0, fin, False)" using r by simp_all
  have v': "verificacion_masiva_goldbach cfg ent p = Some sal" using v s(1) by simp
  show ?thesis
    unfolding n0_def[symmetric] fin_def[symmetric]
    using v' l1 l2 h low m by (intro exI[of _ sal]) simp
qed

theorem reanuda_en_el_par_siguiente_witness:
  "asegurar_par (ultimo_n_verificado
      \<lparr>ultimo_n_verificado = 998, total_verificados = 497, total_cumple = 497,
       contraejemplos = [], tiempo_total = 0, inicio_sesion = ''''\<rparr> + 2) < n_final (CONFIG 1)
   \<and> 0 < num_cores (CONFIG 1) \<and> 0 < tamano_batch (CONFIG 1)
   \<and> interrupcion \<lparr>reloj = (\<lambda>k. 0), cronometro = (\<lambda>b. (0, 0)), interrupcion = None\<rparr> \<noteq> Some 0
   \<and> (\<exists>sal. verificacion_masiva_goldbach (CONFIG 1)
               \<lparr>reloj = (\<lambda>k. 0), cronometro = (\<lambda>b. (0, 0)), interrupcion = None\<rparr>
               \<lparr>ultimo_n_verificado = 998, total_verificados = 497, total_cumple = 497,
                contraejemplos = [], tiempo_total = 0, inicio_sesion = ''''\<rparr> = Some sal
          \<and> hd (lotes sal) = (1000, 10999, False)
          \<and> hd (concat (map numeros_verificados (lotes sal))) = 1000)"
proof -
  define p where "p = \<lparr>ultimo_n_verificado = 998, total_verificados = 497, total_cumple = 497,
       contraejemplos = [], tiempo_total = 0, inicio_sesion = ''''\<rparr>"
  define ent where "ent = \<lparr>reloj = (\<lambda>k. 0::real), cronometro = (\<lambda>b::int \<times> int \<times> bool. (0::real, 0::real)),
       interrupcion = None\<rparr>"
  have n0: "asegurar_par (ultimo_n_verificado p + 2) = 1000"
    by (simp add: p_def asegurar_par_def)
  have h1: "asegurar_par (ultimo_n_verificado p + 2) < n_final (CONFIG 1)"
    unfolding n0 by (simp add: CONFIG_def)
  have h2: "0 < num_cores (CONFIG 1)" by (simp add: CONFIG_def)
  have h3: "0 < tamano_batch (CONFIG 1)" by (simp add: CONFIG_def)
  have h4: "interrupcion ent \<noteq> Some 0" by (simp add: ent_def)
  have f: "min (1000 + tamano_batch (CONFIG 1) - 1) (n_final (CONFIG 1)) = 10999"
    by (simp add: CONFIG_def)
  from reanuda_en_el_par_siguiente[OF h1 h2 h3 h4]
  obtain sal where "verificacion_masiva_goldbach (CONFIG 1) ent p = Some sal"
    "hd (lotes sal) = (1000, 10999, False)"
    "hd (concat (map numeros_verificados (lotes sal))) = 1000"
    unfolding n0 f by blast
  with h1 h2 h3 h4 show ?thesis unfolding p_def ent_def by blast
qed

section \<open>Uninterrupted runs, and loading what was saved\<close>

lemma bucle_sin_interrupcion:
  assumes tb: "0 \<le> tamano_batch cfg" and nc: "0 < num_cores cfg"
    and ni: "interrupcion ent = None"
  shows "\<exists>sal. bucle cfg ent st = Some sal \<and> desenlace sal = Completada
           \<and> guardados sal \<noteq> [] \<and> last (guardados sal) = progreso_final sal"
proof (induction "nat (n_final cfg - n_actual st + 1)" arbitrary: st rule: less_induct)
  case less
  show ?case
  proof (cases "n_actual st \<le> n_final cfg")
    case False
    from bucle_fin[OF False, of ent] show ?thesis by simp
  next
    case True
    obtain k where k: "num_cores cfg = Suc k" using nc by (cases "num_cores cfg") auto
    from preparar_batches_primero[OF tb True, of k]
    have bs_ne: "fst (preparar_batches cfg (num_cores cfg) (n_actual st)) \<noteq> []"
      and av: "n_actual st < snd (preparar_batches cfg (num_cores cfg) (n_actual st))"
      unfolding k by auto
    have i: "interrupcion ent \<noteq> Some (ronda st)" using ni by simp
    note e = bucle_ronda[OF True bs_ne i]
    show ?thesis
      unfolding e
      by (rule less) (use av True in simp)
  qed
qed

lemma ultimo_tras_consolidar:
  "ultimo_n_verificado (fold consolidar (pool_map ent (bs @ [(a, b, v)])) p) = b"
  by (simp add: pool_map_def consolidar_def rango_verificar)

lemma enteros_map_Entero: "enteros (map Entero xs) = Some xs"
  by (induction xs) auto

lemma progreso_de_valor_de_progreso: "progreso_de_valor (valor_de_progreso p) = Some p"
  by (simp add: progreso_de_valor_def valor_de_progreso_def enteros_map_Entero)

lemma carga_de_lo_guardado:
  "progreso_cargado cfg ahora (Documento (valor_de_progreso p)) = Some p"
proof -
  have "cargar_progreso cfg ahora (Documento (valor_de_progreso p)) = Inr (valor_de_progreso p)"
    by (simp add: cargar_progreso_def intentar_cargar_casos(3) valor_de_progreso_def
        formato_miles_def)
  then show ?thesis by (simp add: progreso_cargado_def progreso_de_valor_de_progreso)
qed

lemma carga_sin_archivo:
  "progreso_cargado cfg ahora Ausente =
     Some \<lparr>ultimo_n_verificado = n_inicial cfg - 2, total_verificados = 0, total_cumple = 0,
           contraejemplos = [], tiempo_total = 0, inicio_sesion = ahora\<rparr>"
  by (simp add: progreso_cargado_def cargar_progreso_def progreso_inicial_def
      progreso_de_valor_def)

section \<open>Lengths of ranges and the first rounds of the default configuration\<close>

lemma length_range_int:
  "0 < paso \<Longrightarrow> int (length (range_int a b paso)) = (if a < b then (b - a + paso - 1) div paso else 0)"
proof (induction a b paso rule: range_int.induct)
  case (1 a b paso)
  show ?case
  proof (cases "a < b")
    case False
    then show ?thesis by (subst range_int.simps) simp
  next
    case True
    have r: "range_int a b paso = a # range_int (a + paso) b paso"
      using True 1(2) by (subst range_int.simps) simp
    have ih: "int (length (range_int (a + paso) b paso)) =
                (if a + paso < b then (b - (a + paso) + paso - 1) div paso else 0)"
      using 1 True by simp
    have d: "(b - a + paso - 1) div paso = (b - a - 1) div paso + 1"
      using 1(2) by (metis add.commute add_diff_eq div_add_self1 less_irrefl)
    show ?thesis
    proof (cases "a + paso < b")
      case t: True
      then show ?thesis unfolding r using ih True d by (simp add: algebra_simps)
    next
      case f: False
      have "0 \<le> b - a - 1" "b - a - 1 < paso" using True f by simp_all
      then have "(b - a - 1) div paso = 0" by simp
      then show ?thesis unfolding r using ih True f d by simp
    qed
  qed
qed

lemma preparar_CONFIG_1:
  "preparar_batches (CONFIG 1) (num_cores (CONFIG 1)) 6 = ([(6, 10005, False)], 10007)"
  "preparar_batches (CONFIG 1) (num_cores (CONFIG 1)) 10007 = ([(10007, 20006, False)], 20008)"
  "preparar_batches (CONFIG 1) (num_cores (CONFIG 1)) 20008 = ([(20008, 30007, False)], 30009)"
  by (simp_all add: CONFIG_def)

section \<open>The batches of the default configuration\<close>

text \<open>
  Claim C1, at the default configuration (range 6 to \<open>10^6\<close>, \<^verbatim>\<open>tamano_batch\<close> 10000,
  one worker, fresh start, no interruption). The claim is that the dispatched batches
  cover every even number of the range and hold \<^verbatim>\<open>tamano_batch\<close> even numbers each.
  The run completes; its first batch is \<open>(6, 10005)\<close>, which holds 5000 even numbers,
  and the next batch starts at \<open>10005 + 2\<close>, which the verifier rounds up to 10008: the
  even number 10006 of the range is in no batch.
\<close>

theorem lotes_saltan_un_par:
  "progreso_cargado (CONFIG 1) [] Ausente =
     Some \<lparr>ultimo_n_verificado = 4, total_verificados = 0, total_cumple = 0,
           contraejemplos = [], tiempo_total = 0, inicio_sesion = []\<rparr>
   \<and> map_option
       (\<lambda>sal. (desenlace sal, hd (lotes sal), length (numeros_verificados (hd (lotes sal))),
               10006 \<in> set (concat (map numeros_verificados (lotes sal)))))
       (verificacion_masiva_goldbach (CONFIG 1)
          \<lparr>reloj = (\<lambda>k. 0), cronometro = (\<lambda>b. (0, 0)), interrupcion = None\<rparr>
          \<lparr>ultimo_n_verificado = 4, total_verificados = 0, total_cumple = 0,
           contraejemplos = [], tiempo_total = 0, inicio_sesion = []\<rparr>)
     = Some (Completada, (6, 10005, False), 5000, False)
   \<and> even (10006 :: int) \<and> n_inicial (CONFIG 1) \<le> 10006 \<and> 10006 \<le> n_final (CONFIG 1)
   \<and> tamano_batch (CONFIG 1) = 10000"
proof -
  define ent where "ent = \<lparr>reloj = (\<lambda>k. 0::real),
      cronometro = (\<lambda>b::int \<times> int \<times> bool. (0::real, 0::real)), interrupcion = None\<rparr>"
  define p0 where "p0 = \<lparr>ultimo_n_verificado = 4, total_verificados = 0, total_cumple = 0,
           contraejemplos = [], tiempo_total = 0, inicio_sesion = []\<rparr>"
  define st where "st = \<lparr>n_actual = 6, progreso_acum = p0, ultimo_guardado = reloj ent 0,
                 ronda = 0, guardados_hasta = [], lotes_hasta = []\<rparr>"
  have tb: "0 \<le> tamano_batch (CONFIG 1)" and nc: "0 < num_cores (CONFIG 1)"
    by (simp_all add: CONFIG_def)
  have ni: "interrupcion ent = None" by (simp add: ent_def)
  have v: "verificacion_masiva_goldbach (CONFIG 1) ent p0 = bucle (CONFIG 1) ent st"
    by (simp add: verificacion_masiva_goldbach_def Let_def asegurar_par_def CONFIG_def
        p0_def st_def)
  have st_n: "n_actual st = 6" and st_l: "lotes_hasta st = []" and st_r: "ronda st = 0"
    by (simp_all add: st_def)
  from bucle_termina[OF tb nc, of ent st]
  obtain sal resto where s0: "bucle (CONFIG 1) ent st = Some sal" "lotes sal = lotes_hasta st @ resto"
    "n_actual st \<le> n_final (CONFIG 1) \<and> interrupcion ent \<noteq> Some (ronda st) \<longrightarrow>
       resto \<noteq> []
       \<and> hd resto = (n_actual st, min (n_actual st + tamano_batch (CONFIG 1) - 1) (n_final (CONFIG 1)), False)
       \<and> (\<forall>(a, b, v) \<in> set (tl resto).
              min (n_actual st + tamano_batch (CONFIG 1) - 1) (n_final (CONFIG 1)) + 2 \<le> a)"
    by blast
  have f: "min (6 + tamano_batch (CONFIG 1) - 1) (n_final (CONFIG 1)) = 10005"
    and nf: "6 \<le> n_final (CONFIG 1)"
    by (simp_all add: CONFIG_def)
  have s: "lotes sal = resto" "resto \<noteq> []" "hd resto = (6, 10005, False)"
    "\<forall>(a, b, v) \<in> set (tl resto). 10007 \<le> a"
    using s0(2,3) ni nf unfolding st_n st_l st_r f by auto
  obtain r where r: "lotes sal = (6, 10005, False) # r" "\<forall>(a, b, v) \<in> set r. 10007 \<le> a"
    using s by (cases resto) auto
  from bucle_sin_interrupcion[OF tb nc ni, of st] s0(1)
  have c: "desenlace sal = Completada" by simp
  have g: "10006 \<notin> set (concat (map numeros_verificados (lotes sal)))"
  proof
    assume "10006 \<in> set (concat (map numeros_verificados (lotes sal)))"
    then obtain a b w where ab: "(a, b, w) \<in> set (lotes sal)"
      "10006 \<in> set (numeros_verificados (a, b, w))" by auto
    from ab(2) have i: "a \<le> 10006" "10006 \<le> b" by (simp_all add: set_numeros_verificados)
    from ab(1) r have "(a, b, w) = (6, 10005, False) \<or> 10007 \<le> a" by auto
    with i show False by auto
  qed
  have l: "length (numeros_verificados (6, 10005, False)) = 5000"
  proof -
    have "int (length (numeros_verificados (6, 10005, False))) = 5000"
      unfolding numeros_verificados_def by (simp add: length_range_int asegurar_par_def)
    then show ?thesis by simp
  qed
  have 1: "map_option
       (\<lambda>sal. (desenlace sal, hd (lotes sal), length (numeros_verificados (hd (lotes sal))),
               10006 \<in> set (concat (map numeros_verificados (lotes sal)))))
       (verificacion_masiva_goldbach (CONFIG 1) ent p0)
     = Some (Completada, (6, 10005, False), 5000, False)"
    unfolding v s0(1) using c g l r(1) by simp
  have 2: "progreso_cargado (CONFIG 1) [] Ausente = Some p0"
    unfolding carga_sin_archivo p0_def by (simp add: CONFIG_def)
  have 3: "even (10006 :: int) \<and> n_inicial (CONFIG 1) \<le> 10006 \<and> 10006 \<le> n_final (CONFIG 1)
   \<and> tamano_batch (CONFIG 1) = 10000"
    by (simp add: CONFIG_def)
  from 1 2 3 show ?thesis unfolding ent_def p0_def by blast
qed

section \<open>Two interrupted runs of the default configuration\<close>

lemma total_tras_consolidar:
  "total_verificados (fold consolidar (pool_map ent [b]) p) =
     total_verificados p + int (length (numeros_verificados b))"
  by (simp add: pool_map_def consolidar_def verificados_verificar)

lemma ultimo_tras_un_lote:
  "ultimo_n_verificado (fold consolidar (pool_map ent [(a, b, v)]) p) = b"
  using ultimo_tras_consolidar[of ent "[]" a b v p] by simp

lemma longitud_lotes_CONFIG:
  "int (length (numeros_verificados (6, 10005, False))) = 5000"
  "int (length (numeros_verificados (10007, 20006, False))) = 5000"
  unfolding numeros_verificados_def by (simp_all add: length_range_int asegurar_par_def)

text \<open>
  Claim C2, at the default configuration (one worker, fresh start) when the run is
  interrupted during its third round. The claim is that every even number from
  \<open>n_inicial\<close> to \<open>ultimo_n_verificado\<close> has been verified. The run has merged the
  batches \<open>(6, 10005)\<close> and \<open>(10007, 20006)\<close>: \<open>ultimo_n_verificado\<close> is 20006 and
  \<open>total_verificados\<close> is 10000, while the even number 10006 lies between 6 and 20006
  and is in neither batch.
\<close>

theorem progreso_cuenta_un_par_no_verificado:
  "map_option
     (\<lambda>sal. (desenlace sal, ultimo_n_verificado (progreso_final sal),
             total_verificados (progreso_final sal), lotes sal,
             10006 \<in> set (concat (map numeros_verificados (lotes sal)))))
     (verificacion_masiva_goldbach (CONFIG 1)
        \<lparr>reloj = (\<lambda>k. 0), cronometro = (\<lambda>b. (0, 0)), interrupcion = Some 2\<rparr>
        \<lparr>ultimo_n_verificado = 4, total_verificados = 0, total_cumple = 0,
         contraejemplos = [], tiempo_total = 0, inicio_sesion = []\<rparr>)
     = Some (Interrumpida, 20006, 10000, [(6, 10005, False), (10007, 20006, False)], False)
   \<and> even (10006 :: int) \<and> n_inicial (CONFIG 1) \<le> 10006 \<and> (10006 :: int) \<le> 20006"
proof -
  define cfg where "cfg = CONFIG 1"
  note prep = preparar_CONFIG_1[folded cfg_def]
  define ent where "ent = \<lparr>reloj = (\<lambda>k. 0::real),
      cronometro = (\<lambda>b::int \<times> int \<times> bool. (0::real, 0::real)), interrupcion = Some 2\<rparr>"
  define p0 where "p0 = \<lparr>ultimo_n_verificado = 4, total_verificados = 0, total_cumple = 0,
           contraejemplos = [], tiempo_total = 0, inicio_sesion = []\<rparr>"
  define p1 where "p1 = fold consolidar (pool_map ent [(6, 10005, False)]) p0"
  define p2 where "p2 = fold consolidar (pool_map ent [(10007, 20006, False)]) p1"
  define st0 where "st0 = \<lparr>n_actual = 6, progreso_acum = p0, ultimo_guardado = reloj ent 0,
                 ronda = 0, guardados_hasta = [], lotes_hasta = []\<rparr>"
  define st1 where "st1 = \<lparr>n_actual = 10007, progreso_acum = p1, ultimo_guardado = 0,
                 ronda = Suc 0, guardados_hasta = [], lotes_hasta = [(6, 10005, False)]\<rparr>"
  define st2 where "st2 = \<lparr>n_actual = 20008, progreso_acum = p2, ultimo_guardado = 0,
                 ronda = Suc (Suc 0), guardados_hasta = [],
                 lotes_hasta = [(6, 10005, False), (10007, 20006, False)]\<rparr>"
  have v: "verificacion_masiva_goldbach cfg ent p0 = bucle cfg ent st0"
    by (simp add: verificacion_masiva_goldbach_def Let_def asegurar_par_def CONFIG_def
        p0_def st0_def cfg_def)
  have nf: "n_final cfg = 1000000" and ig: "intervalo_guardado cfg = 3600"
    by (simp_all add: CONFIG_def cfg_def)
  have r0: "bucle cfg ent st0 = bucle cfg ent st1"
    by (subst bucle_ronda)
      (simp_all add: st0_def st1_def prep nf ig ent_def p1_def)
  have r1: "bucle cfg ent st1 = bucle cfg ent st2"
    by (subst bucle_ronda)
      (simp_all add: st1_def st2_def prep nf ig ent_def p2_def)
  have r2: "bucle cfg ent st2 =
      Some \<lparr>desenlace = Interrumpida, progreso_final = p2, guardados = [p2],
            lotes = [(6, 10005, False), (10007, 20006, False)]\<rparr>"
    by (subst bucle_interrumpido)
      (simp_all add: st2_def prep nf ent_def)
  have u: "ultimo_n_verificado p2 = 20006" unfolding p2_def by (rule ultimo_tras_un_lote)
  have t: "total_verificados p2 = 10000"
    unfolding p2_def p1_def total_tras_consolidar longitud_lotes_CONFIG by (simp add: p0_def)
  have g: "10006 \<notin> set (concat (map numeros_verificados
             [(6, 10005, False), (10007, 20006, False)]))"
    by (simp add: set_numeros_verificados)
  have 1: "map_option
     (\<lambda>sal. (desenlace sal, ultimo_n_verificado (progreso_final sal),
             total_verificados (progreso_final sal), lotes sal,
             10006 \<in> set (concat (map numeros_verificados (lotes sal)))))
     (verificacion_masiva_goldbach cfg ent p0)
     = Some (Interrumpida, 20006, 10000, [(6, 10005, False), (10007, 20006, False)], False)"
    unfolding v r0 r1 r2 using u t g by simp
  have 2: "even (10006 :: int) \<and> n_inicial cfg \<le> 10006 \<and> (10006 :: int) \<le> 20006"
    by (simp add: CONFIG_def cfg_def)
  from 1 2 show ?thesis unfolding ent_def p0_def cfg_def by blast
qed

text \<open>
  Claim C5, at the default configuration (one worker, fresh start) when the run is
  interrupted during its second round. The claim is that every saved
  \<open>ultimo_n_verificado\<close> is even. The interrupt handler saves the Progress as merged
  after the first batch \<open>(6, 10005)\<close>: the saved \<open>ultimo_n_verificado\<close> is the upper
  bound 10005 of the batch, an odd number that was not verified.
\<close>

theorem guarda_un_ultimo_impar:
  "map_option
     (\<lambda>sal. (desenlace sal, map ultimo_n_verificado (guardados sal), lotes sal,
             10005 \<in> set (concat (map numeros_verificados (lotes sal)))))
     (verificacion_masiva_goldbach (CONFIG 1)
        \<lparr>reloj = (\<lambda>k. 0), cronometro = (\<lambda>b. (0, 0)), interrupcion = Some 1\<rparr>
        \<lparr>ultimo_n_verificado = 4, total_verificados = 0, total_cumple = 0,
         contraejemplos = [], tiempo_total = 0, inicio_sesion = []\<rparr>)
     = Some (Interrumpida, [10005], [(6, 10005, False)], False)
   \<and> odd (10005 :: int)"
proof -
  define cfg where "cfg = CONFIG 1"
  note prep = preparar_CONFIG_1[folded cfg_def]
  define ent where "ent = \<lparr>reloj = (\<lambda>k. 0::real),
      cronometro = (\<lambda>b::int \<times> int \<times> bool. (0::real, 0::real)), interrupcion = Some 1\<rparr>"
  define p0 where "p0 = \<lparr>ultimo_n_verificado = 4, total_verificados = 0, total_cumple = 0,
           contraejemplos = [], tiempo_total = 0, inicio_sesion = []\<rparr>"
  define p1 where "p1 = fold consolidar (pool_map ent [(6, 10005, False)]) p0"
  define st0 where "st0 = \<lparr>n_actual = 6, progreso_acum = p0, ultimo_guardado = reloj ent 0,
                 ronda = 0, guardados_hasta = [], lotes_hasta = []\<rparr>"
  define st1 where "st1 = \<lparr>n_actual = 10007, progreso_acum = p1, ultimo_guardado = 0,
                 ronda = Suc 0, guardados_hasta = [], lotes_hasta = [(6, 10005, False)]\<rparr>"
  have v: "verificacion_masiva_goldbach cfg ent p0 = bucle cfg ent st0"
    by (simp add: verificacion_masiva_goldbach_def Let_def asegurar_par_def CONFIG_def
        p0_def st0_def cfg_def)
  have nf: "n_final cfg = 1000000" and ig: "intervalo_guardado cfg = 3600"
    by (simp_all add: CONFIG_def cfg_def)
  have r0: "bucle cfg ent st0 = bucle cfg ent st1"
    by (subst bucle_ronda)
      (simp_all add: st0_def st1_def prep nf ig ent_def p1_def)
  have r1: "bucle cfg ent st1 =
      Some \<lparr>desenlace = Interrumpida, progreso_final = p1, guardados = [p1],
            lotes = [(6, 10005, False)]\<rparr>"
    by (subst bucle_interrumpido)
      (simp_all add: st1_def prep nf ent_def)
  have u: "ultimo_n_verificado p1 = 10005" unfolding p1_def by (rule ultimo_tras_un_lote)
  have g: "10005 \<notin> set (concat (map numeros_verificados [(6, 10005, False)]))"
    by (simp add: set_numeros_verificados)
  have 1: "map_option
     (\<lambda>sal. (desenlace sal, map ultimo_n_verificado (guardados sal), lotes sal,
             10005 \<in> set (concat (map numeros_verificados (lotes sal)))))
     (verificacion_masiva_goldbach cfg ent p0)
     = Some (Interrumpida, [10005], [(6, 10005, False)], False)"
    unfolding v r0 r1 using u g by simp
  have 2: "odd (10005 :: int)" by simp
  from 1 2 show ?thesis unfolding ent_def p0_def cfg_def by blast
qed

end
